theory Spec2Isabelle
  imports Main "HOL-Library.AList" "HOL-Library.Sublist"
begin

section \<open>The sequence combinator of tinybaker\<close>

text \<open>
  A shallow embedding of \<^verbatim>\<open>tinybaker/combinators/sequence.py\<close>.

  \<^item> A tag and a path are strings.
  \<^item> A Python set of tags is a list holding its elements in the order the set is
    iterated; the theorems hold for every such order.
  \<^item> The dictionary \<^verbatim>\<open>lexical_scope\<close> is an association list in insertion
    order (a Python dict keeps it); \<^verbatim>\<open>d[k] = v\<close> is \<open>AList.update\<close>,
    which replaces in place or appends. The path dictionaries of a run are only looked
    up and merged, so they are maps.
  \<^item> \<^verbatim>\<open>raise BakerError(msg)\<close> is the result \<open>Inl (BakerError msg)\<close>.
  \<^item> The effects of a run (drawing a uuid, creating a directory, whatever a step's
    build does) are explicit: every effectful function takes the world and returns it.
\<close>

subsection \<open>Data\<close>

type_synonym tag = string
type_synonym path = string

text \<open>
  The two exception classes the module imports from \<^verbatim>\<open>..exceptions\<close>:
  \<^verbatim>\<open>BakerError\<close> and its specialization \<^verbatim>\<open>TagConflictError\<close>.
\<close>

datatype baker_error = BakerError (message: string) | TagConflictError (message: string)

text \<open>\<^verbatim>\<open>TagRef = Tuple[SourceIdx, RefCount]\<close>; the origin \<open>-1\<close> is the external one.\<close>

type_synonym tag_ref = "int \<times> int"
type_synonym lexical_scope = "(tag \<times> tag_ref) list"

text \<open>
  What a run can touch. \<^verbatim>\<open>uuid4()\<close> returns the next value of an unknown source;
  the values are kept as Python prints them (\<^verbatim>\<open>str(uuid)\<close>, what
  \<^verbatim>\<open>format\<close> inserts). \<open>existing_paths\<close> is what \<^verbatim>\<open>os.path.exists\<close> answers
  for, and \<open>files\<close> is everything else the steps' builds work on.
\<close>

record 'f world =
  uuid_source :: "nat \<Rightarrow> string"
  uuid_count :: nat
  existing_paths :: "path set"
  files :: 'f

text \<open>
  A step definition: its two declared tag sets and its build. The build of an instance
  made from \<open>input_paths\<close> and \<open>output_paths\<close>, called with the overwrite flag,
  changes the world and either returns (\<open>None\<close>) or raises (\<open>Some x\<close>).
\<close>

datatype ('f, 'x) step_definition =
  StepDefinition
    (input_file_set: "tag list")
    (output_file_set: "tag list")
    (build: "(tag \<rightharpoonup> path) \<Rightarrow> (tag \<rightharpoonup> path) \<Rightarrow> bool \<Rightarrow> 'f world \<Rightarrow> 'x option \<times> 'f world")

text \<open>\<^verbatim>\<open>step(input_paths=..., output_paths=...)\<close>: an instance of a step.\<close>

record ('f, 'x) step_instance =
  definition_of :: "('f, 'x) step_definition"
  input_paths :: "tag \<rightharpoonup> path"
  output_paths :: "tag \<rightharpoonup> path"

subsection \<open>The lexical scope\<close>

definition inc_ref_count :: "tag_ref \<Rightarrow> tag_ref" where
  "inc_ref_count ref = (fst ref, snd ref + 1)"

text \<open>The loop over \<^verbatim>\<open>step.input_file_set\<close>.\<close>

fun scope_inputs :: "tag list \<Rightarrow> lexical_scope \<Rightarrow> lexical_scope" where
  "scope_inputs [] lexical_scope = lexical_scope"
| "scope_inputs (input_tag # tags) lexical_scope =
     scope_inputs tags
       (case map_of lexical_scope input_tag of
          None \<Rightarrow> AList.update input_tag (-1, 1) lexical_scope
        | Some ref \<Rightarrow> AList.update input_tag (inc_ref_count ref) lexical_scope)"

text \<open>The loop over \<^verbatim>\<open>step.output_file_set\<close> of step \<open>i\<close>.\<close>

fun scope_outputs :: "int \<Rightarrow> tag list \<Rightarrow> lexical_scope \<Rightarrow> baker_error + lexical_scope" where
  "scope_outputs i [] lexical_scope = Inr lexical_scope"
| "scope_outputs i (output_tag # tags) lexical_scope =
     (if map_of lexical_scope output_tag \<noteq> None
      then Inl (BakerError (''Multiple steps in sequence generate output tag '' @ output_tag))
      else scope_outputs i tags (AList.update output_tag (i, 0) lexical_scope))"

text \<open>The loop \<^verbatim>\<open>for i in range(len(steps))\<close>, from index \<open>i\<close> on.\<close>

fun scope_steps ::
  "nat \<Rightarrow> ('f, 'x) step_definition list \<Rightarrow> lexical_scope \<Rightarrow> baker_error + lexical_scope" where
  "scope_steps i [] lexical_scope = Inr lexical_scope"
| "scope_steps i (step # steps) lexical_scope =
     (case scope_outputs (int i) (output_file_set step)
             (scope_inputs (input_file_set step) lexical_scope) of
        Inl e \<Rightarrow> Inl e
      | Inr lexical_scope' \<Rightarrow> scope_steps (Suc i) steps lexical_scope')"

definition build_lexical_scope ::
  "('f, 'x) step_definition list \<Rightarrow> baker_error + lexical_scope" where
  "build_lexical_scope steps = scope_steps 0 steps []"

subsection \<open>The interface of a sequence\<close>

text \<open>\<^verbatim>\<open>sep.join(items)\<close>.\<close>

fun join :: "string \<Rightarrow> string list \<Rightarrow> string" where
  "join sep [] = []"
| "join sep [x] = x"
| "join sep (x # y # ys) = x @ sep @ join sep (y # ys)"

definition determine_sequence_interface ::
  "('f, 'x) step_definition list \<Rightarrow> tag list \<Rightarrow> baker_error + (tag list \<times> tag list)" where
  "determine_sequence_interface seq_steps exposed_intermediates =
     (case build_lexical_scope seq_steps of
        Inl e \<Rightarrow> Inl e
      | Inr lexical_scope \<Rightarrow>
          (let seq_input_file_set = map fst (filter (\<lambda>(tag, ref). fst ref = -1) lexical_scope);
               seq_output_file_set = map fst (filter (\<lambda>(tag, ref). snd ref = 0) lexical_scope);
               non_inputs = filter (\<lambda>tag. tag \<notin> set seq_input_file_set) (map fst lexical_scope)
           in if length (filter (\<lambda>tag. tag \<notin> set non_inputs) exposed_intermediates) \<noteq> 0
              then Inl (BakerError (''Attempting to expose non-generated intermediate(s): ''
                                    @ join '', '' exposed_intermediates))
              else Inr (seq_input_file_set, remdups (seq_output_file_set @ exposed_intermediates))))"

subsection \<open>A run of a sequence\<close>

definition uuid4 :: "'f world \<Rightarrow> string \<times> 'f world" where
  "uuid4 w = (uuid_source w (uuid_count w), w\<lparr>uuid_count := Suc (uuid_count w)\<rparr>)"

text \<open>
  What \<^verbatim>\<open>str\<close> gives for a uuid: 36 characters, hexadecimal digits and hyphens.
\<close>

definition uuid_string :: "string \<Rightarrow> bool" where
  "uuid_string s \<longleftrightarrow> length s = 36 \<and> (\<forall>c \<in> set s. c \<in> set ''0123456789abcdef-'')"

text \<open>The local \<^verbatim>\<open>folder\<close> of \<^verbatim>\<open>_generate_temp_filename\<close>.\<close>

definition temp_folder :: "string \<Rightarrow> path" where
  "temp_folder sid = ''/tmp/tinybaker-'' @ sid"

definition generate_temp_filename :: "string \<Rightarrow> 'f world \<Rightarrow> path \<times> 'f world" where
  "generate_temp_filename sid w =
     (let folder = temp_folder sid;
          w1 = (if folder \<notin> existing_paths w
                then w\<lparr>existing_paths := insert folder (existing_paths w)\<rparr> else w);
          (u, w2) = uuid4 w1
      in (folder @ ''/'' @ u, w2))"

text \<open>
  The comprehension \<^verbatim>\<open>{tag: self._generate_temp_filename(sid) for tag in ...}\<close>:
  one call for each tag, in the order of the iteration, into the dictionary built so far.
\<close>

fun generate_paths ::
  "string \<Rightarrow> tag list \<Rightarrow> (tag \<rightharpoonup> path) \<Rightarrow> 'f world \<Rightarrow> (tag \<rightharpoonup> path) \<times> 'f world" where
  "generate_paths sid [] acc w = (acc, w)"
| "generate_paths sid (tag # tags) acc w =
     (let (p, w1) = generate_temp_filename sid w
      in generate_paths sid tags (acc(tag \<mapsto> p)) w1)"

text \<open>
  Phase 1 of \<^verbatim>\<open>script\<close>, the loop \<^verbatim>\<open>for step in self.steps\<close>. \<open>seq_outs\<close> is
  \<^verbatim>\<open>self.output_file_set\<close>.
\<close>

fun plan_steps ::
  "('f, 'x) step_definition list \<Rightarrow> tag list \<Rightarrow> string \<Rightarrow> (tag \<rightharpoonup> path) \<Rightarrow> (tag \<rightharpoonup> path) \<Rightarrow>
   (tag \<rightharpoonup> path) \<Rightarrow> 'f world \<Rightarrow> ('f, 'x) step_instance list \<times> 'f world" where
  "plan_steps [] seq_outs sid seq_input_paths seq_output_paths prev_output_paths w = ([], w)"
| "plan_steps (step # steps) seq_outs sid seq_input_paths seq_output_paths prev_output_paths w =
     (let input_paths_from_sequence = seq_input_paths |` set (input_file_set step);
          input_paths_from_prev = prev_output_paths |` set (input_file_set step);
          input_paths = Map.empty ++ input_paths_from_sequence ++ input_paths_from_prev;
          (generated_output_paths, w1) =
             generate_paths sid (filter (\<lambda>tag. tag \<notin> set seq_outs) (output_file_set step))
               Map.empty w;
          output_paths_from_sequence = seq_output_paths |` set (output_file_set step);
          output_paths = Map.empty ++ generated_output_paths ++ output_paths_from_sequence;
          inst = \<lparr>definition_of = step, input_paths = input_paths, output_paths = output_paths\<rparr>;
          (instances, w2) =
             plan_steps steps seq_outs sid seq_input_paths seq_output_paths output_paths w1
      in (inst # instances, w2))"

definition build_instances ::
  "('f, 'x) step_definition list \<Rightarrow> tag list \<Rightarrow> (tag \<rightharpoonup> path) \<Rightarrow> (tag \<rightharpoonup> path) \<Rightarrow>
   'f world \<Rightarrow> ('f, 'x) step_instance list \<times> 'f world" where
  "build_instances steps seq_outs input_files output_files w =
     (let (sequence_instance_id, w1) = uuid4 w
      in plan_steps steps seq_outs sequence_instance_id input_files output_files Map.empty w1)"

text \<open>Phase 2: \<^verbatim>\<open>instance.build(overwrite=True)\<close>, one instance after the other.\<close>

fun run_instances :: "('f, 'x) step_instance list \<Rightarrow> 'f world \<Rightarrow> 'x option \<times> 'f world" where
  "run_instances [] w = (None, w)"
| "run_instances (inst # instances) w =
     (case build (definition_of inst) (input_paths inst) (output_paths inst) True w of
        (Some x, w') \<Rightarrow> (Some x, w')
      | (None, w') \<Rightarrow> run_instances instances w')"

definition script ::
  "('f, 'x) step_definition list \<Rightarrow> tag list \<Rightarrow> (tag \<rightharpoonup> path) \<Rightarrow> (tag \<rightharpoonup> path) \<Rightarrow>
   'f world \<Rightarrow> 'x option \<times> 'f world" where
  "script steps seq_outs input_files output_files w =
     (let (instances, w1) = build_instances steps seq_outs input_files output_files w
      in run_instances instances w1)"

subsection \<open>Composition\<close>

text \<open>
  The class \<^verbatim>\<open>Sequence\<close> is the step definition with the two computed sets whose
  build runs \<^verbatim>\<open>script\<close> over the steps it was made from.
\<close>

definition sequence ::
  "('f, 'x) step_definition list \<Rightarrow> tag list \<Rightarrow> baker_error + ('f, 'x) step_definition" where
  "sequence seq_steps exposed_intermediates =
     (if length seq_steps < 1 then Inl (BakerError ''Cannot sequence fewer than 1 event'')
      else if length seq_steps = 1 then Inr (seq_steps ! 0)
      else (case build_lexical_scope seq_steps of
              Inl e \<Rightarrow> Inl e
            | Inr _ \<Rightarrow>
               (case determine_sequence_interface seq_steps exposed_intermediates of
                  Inl e \<Rightarrow> Inl e
                | Inr (seq_input_file_set, seq_output_file_set) \<Rightarrow>
                    Inr (StepDefinition seq_input_file_set seq_output_file_set
                           (\<lambda>input_files output_files overwrite.
                              script seq_steps seq_output_file_set input_files output_files)))))"

subsection \<open>Composition over a store of objects\<close>

text \<open>
  The functions above take the values of their arguments. To say which objects
  composition writes, here is the code of composition once more with its lists, sets and
  dictionaries as objects in a store. An address is an index into the store's list of
  objects of its kind; a new object is appended. As in Python, a comprehension,
  \<^verbatim>\<open>set(d)\<close>, \<^verbatim>\<open>a - b\<close> and \<^verbatim>\<open>set.union(a, b)\<close> make a new set and leave their
  operands alone, \<^verbatim>\<open>lexical_scope = {}\<close> makes a new dictionary, and
  \<^verbatim>\<open>lexical_scope[tag] = ref\<close> writes the dictionary in place. The class
  \<^verbatim>\<open>Sequence\<close> keeps the addresses of its two sets and, in \<^verbatim>\<open>steps\<close>, the address
  of the very list it was given. The default value of \<^verbatim>\<open>exposed_intermediates\<close> is one
  set object, made once; a call that omits the argument passes its address.
\<close>

type_synonym addr = nat

record ('f, 'x) store =
  lists :: "('f, 'x) step_definition list list"
  sets :: "tag list list"
  dicts :: "lexical_scope list"

datatype ('f, 'x) composed =
    Step_itself "('f, 'x) step_definition"
  | Sequence_class (input_set_at: addr) (output_set_at: addr) (steps_at: addr)

definition new_set :: "tag list \<Rightarrow> ('f, 'x) store \<Rightarrow> addr \<times> ('f, 'x) store" where
  "new_set s h = (length (sets h), h\<lparr>sets := sets h @ [s]\<rparr>)"

definition new_dict :: "('f, 'x) store \<Rightarrow> addr \<times> ('f, 'x) store" where
  "new_dict h = (length (dicts h), h\<lparr>dicts := dicts h @ [[]]\<rparr>)"

definition dict_store :: "addr \<Rightarrow> tag \<Rightarrow> tag_ref \<Rightarrow> ('f, 'x) store \<Rightarrow> ('f, 'x) store" where
  "dict_store d k v h = h\<lparr>dicts := (dicts h)[d := AList.update k v (dicts h ! d)]\<rparr>"

fun scope_inputs_st :: "addr \<Rightarrow> tag list \<Rightarrow> ('f, 'x) store \<Rightarrow> ('f, 'x) store" where
  "scope_inputs_st lexical_scope [] h = h"
| "scope_inputs_st lexical_scope (input_tag # tags) h =
     scope_inputs_st lexical_scope tags
       (case map_of (dicts h ! lexical_scope) input_tag of
          None \<Rightarrow> dict_store lexical_scope input_tag (-1, 1) h
        | Some ref \<Rightarrow> dict_store lexical_scope input_tag (inc_ref_count ref) h)"

fun scope_outputs_st ::
  "addr \<Rightarrow> int \<Rightarrow> tag list \<Rightarrow> ('f, 'x) store \<Rightarrow> baker_error option \<times> ('f, 'x) store" where
  "scope_outputs_st lexical_scope i [] h = (None, h)"
| "scope_outputs_st lexical_scope i (output_tag # tags) h =
     (if map_of (dicts h ! lexical_scope) output_tag \<noteq> None
      then (Some (BakerError (''Multiple steps in sequence generate output tag '' @ output_tag)), h)
      else scope_outputs_st lexical_scope i tags (dict_store lexical_scope output_tag (i, 0) h))"

fun scope_steps_st ::
  "addr \<Rightarrow> nat \<Rightarrow> ('f, 'x) step_definition list \<Rightarrow> ('f, 'x) store \<Rightarrow>
   baker_error option \<times> ('f, 'x) store" where
  "scope_steps_st lexical_scope i [] h = (None, h)"
| "scope_steps_st lexical_scope i (step # steps) h =
     (case scope_outputs_st lexical_scope (int i) (output_file_set step)
             (scope_inputs_st lexical_scope (input_file_set step) h) of
        (Some e, h') \<Rightarrow> (Some e, h')
      | (None, h') \<Rightarrow> scope_steps_st lexical_scope (Suc i) steps h')"

definition build_lexical_scope_st ::
  "addr \<Rightarrow> ('f, 'x) store \<Rightarrow> (baker_error + addr) \<times> ('f, 'x) store" where
  "build_lexical_scope_st steps h =
     (let (lexical_scope, h1) = new_dict h
      in case scope_steps_st lexical_scope 0 (lists h1 ! steps) h1 of
           (Some e, h2) \<Rightarrow> (Inl e, h2)
         | (None, h2) \<Rightarrow> (Inr lexical_scope, h2))"

definition determine_sequence_interface_st ::
  "addr \<Rightarrow> addr \<Rightarrow> ('f, 'x) store \<Rightarrow> (baker_error + addr \<times> addr) \<times> ('f, 'x) store" where
  "determine_sequence_interface_st seq_steps exposed_intermediates h =
     (case build_lexical_scope_st seq_steps h of
        (Inl e, h1) \<Rightarrow> (Inl e, h1)
      | (Inr lexical_scope, h1) \<Rightarrow>
          (let (seq_input_file_set, h2) =
                 new_set (map fst (filter (\<lambda>(tag, ref). fst ref = -1) (dicts h1 ! lexical_scope))) h1;
               (seq_output_file_set, h3) =
                 new_set (map fst (filter (\<lambda>(tag, ref). snd ref = 0) (dicts h2 ! lexical_scope))) h2;
               (keys, h4) = new_set (map fst (dicts h3 ! lexical_scope)) h3;
               (non_inputs, h5) =
                 new_set (filter (\<lambda>tag. tag \<notin> set (sets h4 ! seq_input_file_set)) (sets h4 ! keys)) h4;
               (offending, h6) =
                 new_set (filter (\<lambda>tag. tag \<notin> set (sets h5 ! non_inputs))
                            (sets h5 ! exposed_intermediates)) h5
           in if length (sets h6 ! offending) \<noteq> 0
              then (Inl (BakerError (''Attempting to expose non-generated intermediate(s): ''
                                     @ join '', '' (sets h6 ! exposed_intermediates))), h6)
              else (let (union, h7) =
                          new_set (remdups (sets h6 ! seq_output_file_set
                                            @ sets h6 ! exposed_intermediates)) h6
                    in (Inr (seq_input_file_set, union), h7))))"

definition sequence_st ::
  "addr \<Rightarrow> addr \<Rightarrow> ('f, 'x) store \<Rightarrow> (baker_error + ('f, 'x) composed) \<times> ('f, 'x) store" where
  "sequence_st seq_steps exposed_intermediates h =
     (if length (lists h ! seq_steps) < 1
      then (Inl (BakerError ''Cannot sequence fewer than 1 event''), h)
      else if length (lists h ! seq_steps) = 1 then (Inr (Step_itself (lists h ! seq_steps ! 0)), h)
      else (case build_lexical_scope_st seq_steps h of
              (Inl e, h1) \<Rightarrow> (Inl e, h1)
            | (Inr _, h1) \<Rightarrow>
               (case determine_sequence_interface_st seq_steps exposed_intermediates h1 of
                  (Inl e, h2) \<Rightarrow> (Inl e, h2)
                | (Inr (seq_input_file_set, seq_output_file_set), h2) \<Rightarrow>
                    (Inr (Sequence_class seq_input_file_set seq_output_file_set seq_steps), h2))))"

subsection \<open>The steps of the examples\<close>

text \<open>
  Step A (inputs \<open>raw\<close>, outputs \<open>clean\<close>) and step B (inputs \<open>clean\<close>, outputs
  \<open>report\<close>), with builds that do nothing, for the concrete instances of the theorems.
\<close>

abbreviation no_build ::
  "(tag \<rightharpoonup> path) \<Rightarrow> (tag \<rightharpoonup> path) \<Rightarrow> bool \<Rightarrow> unit world \<Rightarrow> unit option \<times> unit world" where
  "no_build \<equiv> (\<lambda>input_files output_files overwrite w. (None, w))"

abbreviation step_A :: "(unit, unit) step_definition" where
  "step_A \<equiv> StepDefinition [''raw''] [''clean''] no_build"

abbreviation step_B :: "(unit, unit) step_definition" where
  "step_B \<equiv> StepDefinition [''clean''] [''report''] no_build"


text \<open>
  Two worlds whose next uuid differs, and the composite of A and B with nothing exposed.
\<close>

abbreviation uuids0 :: "nat \<Rightarrow> string" where
  "uuids0 \<equiv> (\<lambda>n. if n = 0 then ''11111111-1111-4111-8111-111111111111''
                 else if n = 1 then ''22222222-2222-4222-8222-222222222222''
                 else ''33333333-3333-4333-8333-333333333333'')"

abbreviation world0 :: "unit world" where
  "world0 \<equiv> \<lparr>uuid_source = uuids0, uuid_count = 0, existing_paths = {}, files = ()\<rparr>"

abbreviation world1 :: "unit world" where
  "world1 \<equiv> \<lparr>uuid_source = uuids0, uuid_count = 2, existing_paths = {}, files = ()\<rparr>"

abbreviation sequence_AB :: "(unit, unit) step_definition" where
  "sequence_AB \<equiv> StepDefinition [''raw''] [''report'']
     (\<lambda>input_files output_files overwrite.
        script [step_A, step_B] [''report''] input_files output_files)"

text \<open>
  Three steps whose builds count in \<open>files\<close>; the build of the second one raises.
\<close>

abbreviation count_build ::
  "(tag \<rightharpoonup> path) \<Rightarrow> (tag \<rightharpoonup> path) \<Rightarrow> bool \<Rightarrow> nat world \<Rightarrow> string option \<times> nat world" where
  "count_build \<equiv> (\<lambda>input_files output_files overwrite w. (None, w\<lparr>files := Suc (files w)\<rparr>))"

abbreviation fail_build ::
  "(tag \<rightharpoonup> path) \<Rightarrow> (tag \<rightharpoonup> path) \<Rightarrow> bool \<Rightarrow> nat world \<Rightarrow> string option \<times> nat world" where
  "fail_build \<equiv> (\<lambda>input_files output_files overwrite w. (Some ''boom'', w\<lparr>files := files w + 10\<rparr>))"

abbreviation steps_failing :: "(nat, string) step_definition list" where
  "steps_failing \<equiv> [StepDefinition [''raw''] [''clean''] count_build,
                     StepDefinition [''clean''] [''mid''] fail_build,
                     StepDefinition [''mid''] [''report''] count_build]"

abbreviation run_failing :: "(nat, string) step_instance list \<times> nat world" where
  "run_failing \<equiv> build_instances steps_failing [''report''] [''raw'' \<mapsto> ''/d/raw.csv'']
     [''report'' \<mapsto> ''/d/out.csv'']
     \<lparr>uuid_source = uuids0, uuid_count = 0, existing_paths = {}, files = 0\<rparr>"

text \<open>
  A store with the list of A and B, the empty set (the default) and the set of
  \<open>clean\<close>.
\<close>

abbreviation store0 :: "(unit, unit) store" where
  "store0 \<equiv> \<lparr>lists = [[step_A, step_B]], sets = [[], [''clean'']], dicts = []\<rparr>"

section \<open>Properties\<close>

subsection \<open>Lists of one step and of none\<close>

text \<open>
  C8. Applied to a list of exactly one step, \<open>sequence\<close> returns that very step,
  whatever the step and whatever the exposed intermediates (nothing is validated);
  applied to the empty list it raises a composition error, whatever the exposed
  intermediates.
\<close>

theorem sequence_one_or_none:
  "sequence [step] exposed_intermediates = Inr step \<and>
   sequence [] exposed_intermediates = Inl (BakerError ''Cannot sequence fewer than 1 event'')"
  by (simp add: sequence_def)

subsection \<open>The resolved scope\<close>

lemma scope_inputs_distinct:
  "distinct (map fst sc) \<Longrightarrow> distinct (map fst (scope_inputs ts sc))"
  by (induction ts arbitrary: sc) (auto simp: distinct_update split: option.splits)

lemma scope_inputs_dom:
  "dom (map_of (scope_inputs ts sc)) = dom (map_of sc) \<union> set ts"
  by (induction ts arbitrary: sc) (auto simp: update_conv' split: option.splits if_splits)

lemma scope_inputs_origin:
  "map_option fst (map_of (scope_inputs ts sc) t) =
     (case map_of sc t of Some ref \<Rightarrow> Some (fst ref)
      | None \<Rightarrow> if t \<in> set ts then Some (-1) else None)"
  by (induction ts arbitrary: sc) (auto simp: update_conv' inc_ref_count_def split: option.splits if_splits)

lemma scope_outputs_Inr:
  "scope_outputs i ts sc = Inr sc' \<Longrightarrow>
     distinct ts \<and> set ts \<inter> dom (map_of sc) = {} \<and>
     map_of sc' = (\<lambda>t. if t \<in> set ts then Some (i, 0) else map_of sc t)"
proof (induction ts arbitrary: sc)
  case Nil
  then show ?case by auto
next
  case (Cons a ts)
  from Cons.prems have a: "map_of sc a = None"
    by (cases "map_of sc a = None") simp_all
  with Cons.prems have r: "scope_outputs i ts (AList.update a (i, 0) sc) = Inr sc'"
    by simp
  from Cons.IH [OF r] a show ?case
    by (auto simp: update_conv' fun_eq_iff split: if_splits)
qed

lemma scope_outputs_distinct:
  "scope_outputs i ts sc = Inr sc' \<Longrightarrow> distinct (map fst sc) \<Longrightarrow> distinct (map fst sc')"
  by (induction ts arbitrary: sc) (auto simp: distinct_update split: if_splits)

lemma scope_outputs_Inl:
  "scope_outputs i ts sc = Inl e \<Longrightarrow>
     \<exists>pre t post. ts = pre @ t # post \<and>
        e = BakerError (''Multiple steps in sequence generate output tag '' @ t) \<and>
        (t \<in> dom (map_of sc) \<or> t \<in> set pre)"
proof (induction ts arbitrary: sc)
  case Nil
  then show ?case by simp
next
  case (Cons a ts)
  show ?case
  proof (cases "map_of sc a = None")
    case False
    with Cons.prems have "e = BakerError (''Multiple steps in sequence generate output tag '' @ a)"
      by auto
    with False show ?thesis by (intro exI [of _ "[]"] exI [of _ a] exI [of _ ts]) auto
  next
    case True
    with Cons.prems have "scope_outputs i ts (AList.update a (i, 0) sc) = Inl e" by simp
    from Cons.IH [OF this] obtain pre t post where
      *: "ts = pre @ t # post" "e = BakerError (''Multiple steps in sequence generate output tag '' @ t)"
      "t \<in> dom (map_of (AList.update a (i, 0) sc)) \<or> t \<in> set pre" by blast
    then show ?thesis
      by (intro exI [of _ "a # pre"] exI [of _ t] exI [of _ post]) (auto simp: update_conv' split: if_splits)
  qed
qed

lemma scope_outputs_fails:
  "\<not> distinct ts \<or> set ts \<inter> dom (map_of sc) \<noteq> {} \<Longrightarrow> \<exists>e. scope_outputs i ts sc = Inl e"
  using scope_outputs_Inr [of i ts sc] by (cases "scope_outputs i ts sc") auto

lemma scope_steps_distinct:
  "scope_steps i steps sc = Inr sc' \<Longrightarrow> distinct (map fst sc) \<Longrightarrow> distinct (map fst sc')"
proof (induction steps arbitrary: i sc)
  case Nil
  then show ?case by simp
next
  case (Cons s steps)
  from Cons.prems(1) obtain sc1 where
    1: "scope_outputs (int i) (output_file_set s) (scope_inputs (input_file_set s) sc) = Inr sc1"
    and 2: "scope_steps (Suc i) steps sc1 = Inr sc'"
    by (auto split: sum.splits)
  from scope_outputs_distinct [OF 1] scope_inputs_distinct Cons.prems(2)
  have "distinct (map fst sc1)" by blast
  from Cons.IH [OF 2 this] show ?case .
qed


lemma scope_steps_Cons_Inr:
  assumes "scope_steps i (s # steps) sc = Inr sc'"
  obtains sc1 where
    "scope_outputs (int i) (output_file_set s) (scope_inputs (input_file_set s) sc) = Inr sc1"
    "scope_steps (Suc i) steps sc1 = Inr sc'"
  using assms by (auto split: sum.splits)

lemma scope_step_old:
  assumes "scope_outputs i (output_file_set s) (scope_inputs (input_file_set s) sc) = Inr sc1"
    and "map_of sc t = Some ref"
  shows "t \<notin> set (output_file_set s) \<and> (\<exists>r. map_of sc1 t = Some (fst ref, r))"
proof -
  from scope_inputs_dom [of "input_file_set s" sc] assms(2)
  have d: "t \<in> dom (map_of (scope_inputs (input_file_set s) sc))" by auto
  from scope_outputs_Inr [OF assms(1)] d
  have n: "t \<notin> set (output_file_set s)"
    and e: "map_of sc1 t = map_of (scope_inputs (input_file_set s) sc) t" by auto
  from scope_inputs_origin [of "input_file_set s" sc t] assms(2)
  have "map_option fst (map_of (scope_inputs (input_file_set s) sc) t) = Some (fst ref)" by simp
  with e n show ?thesis by (cases "map_of sc1 t") auto
qed

lemma scope_steps_old:
  "scope_steps i steps sc = Inr sc' \<Longrightarrow> map_of sc t = Some ref \<Longrightarrow>
     (\<forall>s \<in> set steps. t \<notin> set (output_file_set s)) \<and> (\<exists>r. map_of sc' t = Some (fst ref, r))"
proof (induction steps arbitrary: i sc ref)
  case Nil
  then show ?case by (cases ref) auto
next
  case (Cons s steps)
  from Cons.prems(1) obtain sc1 where
    1: "scope_outputs (int i) (output_file_set s) (scope_inputs (input_file_set s) sc) = Inr sc1"
    and 2: "scope_steps (Suc i) steps sc1 = Inr sc'"
    by (rule scope_steps_Cons_Inr)
  from scope_step_old [OF 1 Cons.prems(2)] obtain r where
    n: "t \<notin> set (output_file_set s)" and m: "map_of sc1 t = Some (fst ref, r)" by blast
  from Cons.IH [OF 2 m] n show ?case by simp
qed

lemma scope_steps_produced:
  "scope_steps i steps sc = Inr sc' \<Longrightarrow> k < length steps \<Longrightarrow>
   t \<in> set (output_file_set (steps ! k)) \<Longrightarrow>
     map_of sc t = None \<and> (\<exists>r. map_of sc' t = Some (int (i + k), r)) \<and>
     (\<forall>j \<le> k. t \<notin> set (input_file_set (steps ! j))) \<and>
     (\<forall>j < length steps. j \<noteq> k \<longrightarrow> t \<notin> set (output_file_set (steps ! j)))"
proof (induction steps arbitrary: i sc k)
  case Nil
  then show ?case by simp
next
  case (Cons s steps)
  from Cons.prems(1) obtain sc1 where
    1: "scope_outputs (int i) (output_file_set s) (scope_inputs (input_file_set s) sc) = Inr sc1"
    and 2: "scope_steps (Suc i) steps sc1 = Inr sc'"
    by (rule scope_steps_Cons_Inr)
  note o = scope_outputs_Inr [OF 1]
  note d = scope_inputs_dom [of "input_file_set s" sc]
  show ?case
  proof (cases k)
    case 0
    with Cons.prems(3) have t: "t \<in> set (output_file_set s)" by simp
    with o d have a: "map_of sc t = None" "t \<notin> set (input_file_set s)"
      and m: "map_of sc1 t = Some (int i, 0)" by auto
    from scope_steps_old [OF 2 m] obtain r where
      "\<forall>s \<in> set steps. t \<notin> set (output_file_set s)" "map_of sc' t = Some (int i, r)" by auto
    with a 0 show ?thesis by (auto simp: nth_Cons split: nat.splits)
  next
    case (Suc k')
    with Cons.prems have k': "k' < length steps" and t: "t \<in> set (output_file_set (steps ! k'))"
      by auto
    from Cons.IH [OF 2 k' t] have
      a: "map_of sc1 t = None" and b: "\<exists>r. map_of sc' t = Some (int (Suc i + k'), r)"
      and c: "\<forall>j \<le> k'. t \<notin> set (input_file_set (steps ! j))"
      and e: "\<forall>j < length steps. j \<noteq> k' \<longrightarrow> t \<notin> set (output_file_set (steps ! j))"
      by auto
    from a o have f: "t \<notin> set (output_file_set s)"
      and g: "map_of (scope_inputs (input_file_set s) sc) t = None"
      by (auto split: if_splits)
    from g d have h: "map_of sc t = None" "t \<notin> set (input_file_set s)" by auto
    from h f b c e Suc show ?thesis
      by (auto simp: nth_Cons split: nat.splits)
  qed
qed

lemma scope_steps_external:
  "scope_steps i steps sc = Inr sc' \<Longrightarrow> map_of sc t = None \<Longrightarrow>
   \<exists>s \<in> set steps. t \<in> set (input_file_set s) \<Longrightarrow>
   \<forall>s \<in> set steps. t \<notin> set (output_file_set s) \<Longrightarrow>
     \<exists>r. map_of sc' t = Some (-1, r)"
proof (induction steps arbitrary: i sc)
  case Nil
  then show ?case by simp
next
  case (Cons s steps)
  from Cons.prems(1) obtain sc1 where
    1: "scope_outputs (int i) (output_file_set s) (scope_inputs (input_file_set s) sc) = Inr sc1"
    and 2: "scope_steps (Suc i) steps sc1 = Inr sc'"
    by (rule scope_steps_Cons_Inr)
  note o = scope_outputs_Inr [OF 1]
  from Cons.prems(4) have n: "t \<notin> set (output_file_set s)" by simp
  with o have e: "map_of sc1 t = map_of (scope_inputs (input_file_set s) sc) t" by simp
  show ?case
  proof (cases "t \<in> set (input_file_set s)")
    case True
    with scope_inputs_origin [of "input_file_set s" sc t] Cons.prems(2)
    have "map_option fst (map_of (scope_inputs (input_file_set s) sc) t) = Some (-1)" by simp
    with e obtain r where "map_of sc1 t = Some (-1, r)" by (cases "map_of sc1 t") auto
    from scope_steps_old [OF 2 this] show ?thesis by simp
  next
    case False
    with scope_inputs_dom [of "input_file_set s" sc] Cons.prems(2) e
    have "map_of sc1 t = None" by auto
    moreover from False Cons.prems(3) have "\<exists>s \<in> set steps. t \<in> set (input_file_set s)" by simp
    moreover from Cons.prems(4) have "\<forall>s \<in> set steps. t \<notin> set (output_file_set s)" by simp
    ultimately show ?thesis using Cons.IH [OF 2] by blast
  qed
qed

lemma scope_steps_dom:
  "scope_steps i steps sc = Inr sc' \<Longrightarrow>
     dom (map_of sc') = dom (map_of sc) \<union> (\<Union>s \<in> set steps. set (input_file_set s) \<union> set (output_file_set s))"
proof (induction steps arbitrary: i sc)
  case Nil
  then show ?case by simp
next
  case (Cons s steps)
  from Cons.prems(1) obtain sc1 where
    1: "scope_outputs (int i) (output_file_set s) (scope_inputs (input_file_set s) sc) = Inr sc1"
    and 2: "scope_steps (Suc i) steps sc1 = Inr sc'"
    by (rule scope_steps_Cons_Inr)
  from scope_outputs_Inr [OF 1] have
    "dom (map_of sc1) = dom (map_of (scope_inputs (input_file_set s) sc)) \<union> set (output_file_set s)"
    by (auto split: if_splits)
  with scope_inputs_dom [of "input_file_set s" sc] Cons.IH [OF 2] show ?case by auto
qed

lemma build_lexical_scope_distinct:
  "build_lexical_scope steps = Inr sc \<Longrightarrow> distinct (map fst sc)"
  unfolding build_lexical_scope_def using scope_steps_distinct [of 0 steps "[]" sc] by simp

lemma keys_filter_distinct:
  "distinct (map fst sc) \<Longrightarrow>
     set (map fst (filter (\<lambda>(tag, ref). Q ref) sc)) = {t. \<exists>ref. map_of sc t = Some ref \<and> Q ref}"
  by (induction sc) (auto simp: rev_image_eqI)

lemma determine_sequence_interface_Inr:
  assumes "determine_sequence_interface seq_steps exposed = Inr (ins, outs)"
  obtains sc where "build_lexical_scope seq_steps = Inr sc"
    "ins = map fst (filter (\<lambda>(tag, ref). fst ref = -1) sc)"
    "outs = remdups (map fst (filter (\<lambda>(tag, ref). snd ref = 0) sc) @ exposed)"
    "\<forall>t \<in> set exposed. t \<in> fst ` set sc \<and> t \<notin> set ins"
  using assms unfolding determine_sequence_interface_def
  by (auto simp: Let_def filter_empty_conv split: sum.splits if_splits)

lemma sequence_Inr:
  assumes "2 \<le> length seq_steps" "sequence seq_steps exposed = Inr S"
  shows "determine_sequence_interface seq_steps exposed = Inr (input_file_set S, output_file_set S)"
    and "build S = (\<lambda>input_files output_files overwrite.
                     script seq_steps (output_file_set S) input_files output_files)"
  using assms unfolding sequence_def by (auto split: sum.splits if_splits)

subsection \<open>The declared tag sets of a sequence\<close>

text \<open>
  C1. When a list of at least two steps composes, the input tag set of the composite is
  exactly the set of tags whose origin in the resolved scope is external (\<open>-1\<close>), and
  its output tag set is exactly the set of tags with reference count 0 together with the
  exposed intermediates. For step A (inputs \<open>raw\<close>, outputs \<open>clean\<close>) and step B
  (inputs \<open>clean\<close>, outputs \<open>report\<close>), whatever their builds, the composite of A and
  B has the input set \<open>{raw}\<close> and the output set \<open>{report}\<close>.
\<close>

theorem sequence_interface:
  "(2 \<le> length seq_steps \<and> sequence seq_steps exposed = Inr S \<longrightarrow>
      (\<exists>lexical_scope. build_lexical_scope seq_steps = Inr lexical_scope \<and>
         set (input_file_set S) = {tag. \<exists>r. map_of lexical_scope tag = Some (-1, r)} \<and>
         set (output_file_set S) =
           {tag. \<exists>i. map_of lexical_scope tag = Some (i, 0)} \<union> set exposed)) \<and>
   (\<exists>S. sequence [StepDefinition [''raw''] [''clean''] a, StepDefinition [''clean''] [''report''] b] []
           = Inr S \<and>
        set (input_file_set S) = {''raw''} \<and> set (output_file_set S) = {''report''})"
proof (intro conjI impI)
  assume a: "2 \<le> length seq_steps \<and> sequence seq_steps exposed = Inr S"
  then have "determine_sequence_interface seq_steps exposed = Inr (input_file_set S, output_file_set S)"
    by (simp add: sequence_Inr(1))
  then obtain sc where sc: "build_lexical_scope seq_steps = Inr sc"
    and i: "input_file_set S = map fst (filter (\<lambda>(tag, ref). fst ref = -1) sc)"
    and out: "output_file_set S = remdups (map fst (filter (\<lambda>(tag, ref). snd ref = 0) sc) @ exposed)"
    by (rule determine_sequence_interface_Inr)
  note d = build_lexical_scope_distinct [OF sc]
  have "set (input_file_set S) = {tag. \<exists>r. map_of sc tag = Some (-1, r)}"
    unfolding i keys_filter_distinct [OF d, of "\<lambda>ref. fst ref = -1"] by auto
  moreover have "set (output_file_set S) = {tag. \<exists>i. map_of sc tag = Some (i, 0)} \<union> set exposed"
    unfolding out set_remdups set_append keys_filter_distinct [OF d, of "\<lambda>ref. snd ref = 0"] by auto
  ultimately show "\<exists>lexical_scope. build_lexical_scope seq_steps = Inr lexical_scope \<and>
         set (input_file_set S) = {tag. \<exists>r. map_of lexical_scope tag = Some (-1, r)} \<and>
         set (output_file_set S) =
           {tag. \<exists>i. map_of lexical_scope tag = Some (i, 0)} \<union> set exposed"
    using sc by blast
next
  show "\<exists>S. sequence [StepDefinition [''raw''] [''clean''] a, StepDefinition [''clean''] [''report''] b] []
           = Inr S \<and>
        set (input_file_set S) = {''raw''} \<and> set (output_file_set S) = {''report''}"
    by (simp add: sequence_def determine_sequence_interface_def build_lexical_scope_def
        inc_ref_count_def Let_def)
qed

theorem sequence_interface_witness:
  "2 \<le> length [step_A, step_B] \<and>
   sequence [step_A, step_B] [''clean'']
     = Inr (StepDefinition [''raw''] [''report'', ''clean'']
         (\<lambda>input_files output_files overwrite.
            script [step_A, step_B] [''report'', ''clean''] input_files output_files)) \<and>
   (\<exists>lexical_scope.
      build_lexical_scope [step_A, step_B] = Inr lexical_scope \<and>
      set [''raw''] = {tag. \<exists>r. map_of lexical_scope tag = Some (-1, r)} \<and>
      set [''report'', ''clean''] =
        {tag. \<exists>i. map_of lexical_scope tag = Some (i, 0)} \<union> set [''clean''])"
proof -
  let ?S = "StepDefinition [''raw''] [''report'', ''clean'']
         (\<lambda>input_files output_files overwrite.
            script [step_A, step_B] [''report'', ''clean''] input_files output_files)"
  have h: "2 \<le> length [step_A, step_B] \<and> sequence [step_A, step_B] [''clean''] = Inr ?S"
    by (simp add: sequence_def determine_sequence_interface_def build_lexical_scope_def
        inc_ref_count_def Let_def)
  from sequence_interface [where seq_steps = "[step_A, step_B]" and exposed = "[''clean'']" and S = ?S,
      THEN conjunct1, rule_format, OF h] h
  show ?thesis by simp
qed

subsection \<open>Failure of the resolution\<close>

lemma scope_steps_Inl:
  "scope_steps i steps sc = Inl e \<Longrightarrow>
     \<exists>k < length steps. \<exists>pre t post. output_file_set (steps ! k) = pre @ t # post \<and>
        e = BakerError (''Multiple steps in sequence generate output tag '' @ t) \<and>
        (t \<in> dom (map_of sc) \<or> (\<exists>j \<le> k. t \<in> set (input_file_set (steps ! j))) \<or>
         (\<exists>j < k. t \<in> set (output_file_set (steps ! j))) \<or> t \<in> set pre)"
proof (induction steps arbitrary: i sc)
  case Nil
  then show ?case by simp
next
  case (Cons s steps)
  note d = scope_inputs_dom [of "input_file_set s" sc]
  show ?case
  proof (cases "scope_outputs (int i) (output_file_set s) (scope_inputs (input_file_set s) sc)")
    case (Inl e')
    with Cons.prems have "e' = e" by simp
    with Inl scope_outputs_Inl obtain pre t post where
      *: "output_file_set s = pre @ t # post"
      "e = BakerError (''Multiple steps in sequence generate output tag '' @ t)"
      "t \<in> dom (map_of (scope_inputs (input_file_set s) sc)) \<or> t \<in> set pre" by blast
    from *(3) d have "t \<in> dom (map_of sc) \<or> t \<in> set (input_file_set s) \<or> t \<in> set pre" by auto
    with *(1,2) have "0 < length (s # steps) \<and> output_file_set ((s # steps) ! 0) = pre @ t # post \<and>
        e = BakerError (''Multiple steps in sequence generate output tag '' @ t) \<and>
        (t \<in> dom (map_of sc) \<or> (\<exists>j \<le> 0. t \<in> set (input_file_set ((s # steps) ! j))) \<or>
         (\<exists>j < 0. t \<in> set (output_file_set ((s # steps) ! j))) \<or> t \<in> set pre)"
      by auto
    then show ?thesis by blast
  next
    case (Inr sc1)
    with Cons.prems have "scope_steps (Suc i) steps sc1 = Inl e" by simp
    from Cons.IH [OF this] obtain k pre t post where k: "k < length steps"
      and *: "output_file_set (steps ! k) = pre @ t # post"
      "e = BakerError (''Multiple steps in sequence generate output tag '' @ t)"
      and c: "t \<in> dom (map_of sc1) \<or> (\<exists>j \<le> k. t \<in> set (input_file_set (steps ! j))) \<or>
         (\<exists>j < k. t \<in> set (output_file_set (steps ! j))) \<or> t \<in> set pre" by blast
    from scope_outputs_Inr [OF Inr] have
      "dom (map_of sc1) = dom (map_of (scope_inputs (input_file_set s) sc)) \<union> set (output_file_set s)"
      by (auto split: if_splits)
    with d have
      "dom (map_of sc1) = dom (map_of sc) \<union> set (input_file_set s) \<union> set (output_file_set s)"
      by simp
    with c consider "t \<in> dom (map_of sc)" | "t \<in> set (input_file_set s)"
      | "t \<in> set (output_file_set s)" | j where "j \<le> k" "t \<in> set (input_file_set (steps ! j))"
      | j where "j < k" "t \<in> set (output_file_set (steps ! j))" | "t \<in> set pre" by blast
    then have "t \<in> dom (map_of sc) \<or> (\<exists>j \<le> Suc k. t \<in> set (input_file_set ((s # steps) ! j))) \<or>
         (\<exists>j < Suc k. t \<in> set (output_file_set ((s # steps) ! j))) \<or> t \<in> set pre"
    proof cases
      case 2
      then have "0 \<le> Suc k \<and> t \<in> set (input_file_set ((s # steps) ! 0))" by simp
      then show ?thesis by blast
    next
      case 3
      then have "0 < Suc k \<and> t \<in> set (output_file_set ((s # steps) ! 0))" by simp
      then show ?thesis by blast
    next
      case (4 j)
      then have "Suc j \<le> Suc k \<and> t \<in> set (input_file_set ((s # steps) ! Suc j))" by simp
      then show ?thesis by blast
    next
      case (5 j)
      then have "Suc j < Suc k \<and> t \<in> set (output_file_set ((s # steps) ! Suc j))" by simp
      then show ?thesis by blast
    qed auto
    with k * have "Suc k < length (s # steps) \<and> output_file_set ((s # steps) ! Suc k) = pre @ t # post \<and>
        e = BakerError (''Multiple steps in sequence generate output tag '' @ t) \<and>
        (t \<in> dom (map_of sc) \<or> (\<exists>j \<le> Suc k. t \<in> set (input_file_set ((s # steps) ! j))) \<or>
         (\<exists>j < Suc k. t \<in> set (output_file_set ((s # steps) ! j))) \<or> t \<in> set pre)"
      by simp
    then show ?thesis by blast
  qed
qed

lemma scope_steps_fails:
  assumes "k < length steps" "t \<in> set (output_file_set (steps ! k))"
    and "(\<exists>j \<le> k. t \<in> set (input_file_set (steps ! j))) \<or>
         (\<exists>j < k. t \<in> set (output_file_set (steps ! j)))"
  shows "\<exists>e. scope_steps i steps sc = Inl e"
proof (cases "scope_steps i steps sc")
  case (Inl e)
  then show ?thesis by blast
next
  case (Inr sc')
  from scope_steps_produced [OF Inr assms(1,2)] have
    "\<forall>j \<le> k. t \<notin> set (input_file_set (steps ! j))"
    "\<forall>j < length steps. j \<noteq> k \<longrightarrow> t \<notin> set (output_file_set (steps ! j))" by auto
  with assms(1,3) have False by (metis less_imp_neq less_trans)
  then show ?thesis ..
qed

lemma sequence_scope_Inl:
  "2 \<le> length seq_steps \<Longrightarrow> build_lexical_scope seq_steps = Inl e \<Longrightarrow>
     sequence seq_steps exposed = Inl e"
  by (cases seq_steps) (auto simp: sequence_def)

subsection \<open>Conflicting producers\<close>

lemma scope_steps_append:
  "scope_steps i (xs @ ys) sc =
     (case scope_steps i xs sc of
        Inl e \<Rightarrow> Inl e
      | Inr sc1 \<Rightarrow> scope_steps (i + length xs) ys sc1)"
  by (induction xs arbitrary: i sc) (auto split: sum.splits)

lemma scope_outputs_first:
  "scope_outputs i ts sc = Inl e \<Longrightarrow>
     \<exists>pre t post sc1. ts = pre @ t # post \<and>
        e = BakerError (''Multiple steps in sequence generate output tag '' @ t) \<and>
        scope_outputs i pre sc = Inr sc1 \<and> map_of sc1 t \<noteq> None"
proof (induction ts arbitrary: sc)
  case Nil
  then show ?case by simp
next
  case (Cons a ts)
  show ?case
  proof (cases "map_of sc a = None")
    case False
    with Cons.prems have "e = BakerError (''Multiple steps in sequence generate output tag '' @ a)"
      by auto
    with False have "a # ts = [] @ a # ts \<and>
        e = BakerError (''Multiple steps in sequence generate output tag '' @ a) \<and>
        scope_outputs i [] sc = Inr sc \<and> map_of sc a \<noteq> None" by simp
    then show ?thesis by blast
  next
    case True
    with Cons.prems have "scope_outputs i ts (AList.update a (i, 0) sc) = Inl e" by simp
    from Cons.IH [OF this] obtain pre t post sc1 where
      *: "ts = pre @ t # post" "e = BakerError (''Multiple steps in sequence generate output tag '' @ t)"
      "scope_outputs i pre (AList.update a (i, 0) sc) = Inr sc1" "map_of sc1 t \<noteq> None" by blast
    with True have "a # ts = (a # pre) @ t # post \<and>
        e = BakerError (''Multiple steps in sequence generate output tag '' @ t) \<and>
        scope_outputs i (a # pre) sc = Inr sc1 \<and> map_of sc1 t \<noteq> None" by simp
    then show ?thesis by blast
  qed
qed

lemma scope_steps_first:
  "scope_steps i steps sc = Inl e \<Longrightarrow>
     \<exists>k pre t post sc1 sc2. k < length steps \<and> output_file_set (steps ! k) = pre @ t # post \<and>
        e = BakerError (''Multiple steps in sequence generate output tag '' @ t) \<and>
        scope_steps i (take k steps) sc = Inr sc1 \<and>
        scope_outputs (int (i + k)) pre (scope_inputs (input_file_set (steps ! k)) sc1) = Inr sc2 \<and>
        map_of sc2 t \<noteq> None"
proof (induction steps arbitrary: i sc)
  case Nil
  then show ?case by simp
next
  case (Cons s steps)
  show ?case
  proof (cases "scope_outputs (int i) (output_file_set s) (scope_inputs (input_file_set s) sc)")
    case (Inl e')
    with Cons.prems have "e' = e" by simp
    with Inl scope_outputs_first obtain pre t post sc2 where
      *: "output_file_set s = pre @ t # post"
      "e = BakerError (''Multiple steps in sequence generate output tag '' @ t)"
      "scope_outputs (int i) pre (scope_inputs (input_file_set s) sc) = Inr sc2"
      "map_of sc2 t \<noteq> None" by blast
    then have "0 < length (s # steps) \<and> output_file_set ((s # steps) ! 0) = pre @ t # post \<and>
        e = BakerError (''Multiple steps in sequence generate output tag '' @ t) \<and>
        scope_steps i (take 0 (s # steps)) sc = Inr sc \<and>
        scope_outputs (int (i + 0)) pre (scope_inputs (input_file_set ((s # steps) ! 0)) sc) = Inr sc2 \<and>
        map_of sc2 t \<noteq> None" by simp
    then show ?thesis by blast
  next
    case (Inr sc')
    with Cons.prems have "scope_steps (Suc i) steps sc' = Inl e" by simp
    from Cons.IH [OF this] obtain k pre t post sc1 sc2 where
      *: "k < length steps" "output_file_set (steps ! k) = pre @ t # post"
      "e = BakerError (''Multiple steps in sequence generate output tag '' @ t)"
      "scope_steps (Suc i) (take k steps) sc' = Inr sc1"
      "scope_outputs (int (Suc i + k)) pre (scope_inputs (input_file_set (steps ! k)) sc1) = Inr sc2"
      "map_of sc2 t \<noteq> None" by blast
    with Inr have "Suc k < length (s # steps) \<and>
        output_file_set ((s # steps) ! Suc k) = pre @ t # post \<and>
        e = BakerError (''Multiple steps in sequence generate output tag '' @ t) \<and>
        scope_steps i (take (Suc k) (s # steps)) sc = Inr sc1 \<and>
        scope_outputs (int (i + Suc k)) pre
          (scope_inputs (input_file_set ((s # steps) ! Suc k)) sc1) = Inr sc2 \<and>
        map_of sc2 t \<noteq> None" by simp
    then show ?thesis by blast
  qed
qed

text \<open>
  The steps before \<open>k\<close> and a step with the inputs of step \<open>k\<close> and the outputs \<open>pre\<close>:
  what has been resolved when the first conflict is met.
\<close>

lemma scope_steps_resolved_prefix:
  assumes "k < length steps"
    and "scope_steps 0 (take k steps) [] = Inr sc1"
    and "scope_outputs (int k) pre (scope_inputs (input_file_set (steps ! k)) sc1) = Inr sc2"
  shows "scope_steps 0 (take k steps @ [StepDefinition (input_file_set (steps ! k)) pre b]) [] = Inr sc2"
  using assms by (simp add: scope_steps_append min_def)

lemma first_conflict:
  assumes f: "scope_steps 0 steps [] = Inl e"
    and d: "\<forall>s \<in> set steps. distinct (output_file_set s)"
  shows "\<exists>k pre t post. k < length steps \<and> output_file_set (steps ! k) = pre @ t # post \<and>
      e = BakerError (''Multiple steps in sequence generate output tag '' @ t) \<and>
      ((\<exists>j \<le> k. t \<in> set (input_file_set (steps ! j))) \<or>
       (\<exists>j < k. t \<in> set (output_file_set (steps ! j)))) \<and>
      (\<forall>j < k. \<forall>u \<in> set (output_file_set (steps ! j)).
         (\<forall>j' \<le> j. u \<notin> set (input_file_set (steps ! j'))) \<and>
         (\<forall>j' < j. u \<notin> set (output_file_set (steps ! j')))) \<and>
      (\<forall>u \<in> set pre.
         (\<forall>j' \<le> k. u \<notin> set (input_file_set (steps ! j'))) \<and>
         (\<forall>j' < k. u \<notin> set (output_file_set (steps ! j'))))"
proof -
  from scope_steps_first [OF f] obtain k pre t post sc1 sc2 where
    k: "k < length steps" and o: "output_file_set (steps ! k) = pre @ t # post"
    and e: "e = BakerError (''Multiple steps in sequence generate output tag '' @ t)"
    and 1: "scope_steps 0 (take k steps) [] = Inr sc1"
    and 2: "scope_outputs (int k) pre (scope_inputs (input_file_set (steps ! k)) sc1) = Inr sc2"
    and m: "map_of sc2 t \<noteq> None" by auto
  let ?D = "StepDefinition (input_file_set (steps ! k)) pre (build (steps ! k))"
  let ?P = "take k steps @ [?D]"
  from k 1 2 have r: "scope_steps 0 ?P [] = Inr sc2" by (rule scope_steps_resolved_prefix)
  from k have lp: "length ?P = Suc k" by simp
  have n: "\<And>j. j < k \<Longrightarrow> ?P ! j = steps ! j"
    using k by (simp add: nth_append)
  have nk: "?P ! k = ?D" using k by (simp add: nth_append)
  note p = scope_steps_produced [OF r]
  have A: "\<forall>j < k. \<forall>u \<in> set (output_file_set (steps ! j)).
         (\<forall>j' \<le> j. u \<notin> set (input_file_set (steps ! j'))) \<and>
         (\<forall>j' < j. u \<notin> set (output_file_set (steps ! j')))"
  proof (intro allI impI ballI conjI)
    fix j u j'
    assume j: "j < k" and u: "u \<in> set (output_file_set (steps ! j))" and j': "j' \<le> j"
    from j u n have "u \<in> set (output_file_set (?P ! j))" by simp
    with p [of j u] j lp have "\<forall>i \<le> j. u \<notin> set (input_file_set (?P ! i))" by simp
    with j' have "u \<notin> set (input_file_set (?P ! j'))" by blast
    with j j' n [of j'] show "u \<notin> set (input_file_set (steps ! j'))" by simp
  next
    fix j u j'
    assume j: "j < k" and u: "u \<in> set (output_file_set (steps ! j))" and j': "j' < j"
    from j u n have "u \<in> set (output_file_set (?P ! j))" by simp
    with p [of j u] j lp have "\<forall>i < length ?P. i \<noteq> j \<longrightarrow> u \<notin> set (output_file_set (?P ! i))"
      by simp
    with j j' lp have "u \<notin> set (output_file_set (?P ! j'))" by simp
    with j j' n [of j'] show "u \<notin> set (output_file_set (steps ! j'))" by simp
  qed
  have B: "\<forall>u \<in> set pre.
         (\<forall>j' \<le> k. u \<notin> set (input_file_set (steps ! j'))) \<and>
         (\<forall>j' < k. u \<notin> set (output_file_set (steps ! j')))"
  proof (intro allI impI ballI conjI)
    fix u j'
    assume u: "u \<in> set pre" and j': "j' \<le> k"
    from u nk have "u \<in> set (output_file_set (?P ! k))" by simp
    with p [of k u] lp have "\<forall>i \<le> k. u \<notin> set (input_file_set (?P ! i))" by simp
    with j' have *: "u \<notin> set (input_file_set (?P ! j'))" by blast
    show "u \<notin> set (input_file_set (steps ! j'))"
    proof (cases "j' = k")
      case True
      with * nk show ?thesis by simp
    next
      case False
      with j' have "j' < k" by simp
      with * n [of j'] show ?thesis by simp
    qed
  next
    fix u j'
    assume u: "u \<in> set pre" and j': "j' < k"
    from u nk have "u \<in> set (output_file_set (?P ! k))" by simp
    with p [of k u] lp have "\<forall>i < length ?P. i \<noteq> k \<longrightarrow> u \<notin> set (output_file_set (?P ! i))"
      by simp
    with j' lp have "u \<notin> set (output_file_set (?P ! j'))" by simp
    with j' n [of j'] show "u \<notin> set (output_file_set (steps ! j'))" by simp
  qed
  have C: "(\<exists>j \<le> k. t \<in> set (input_file_set (steps ! j))) \<or>
       (\<exists>j < k. t \<in> set (output_file_set (steps ! j)))"
  proof -
    from m have "t \<in> dom (map_of sc2)" by auto
    with scope_steps_dom [OF r]
    have "t \<in> (\<Union>s \<in> set ?P. set (input_file_set s) \<union> set (output_file_set s))"
      by (simp only: map_of.simps dom_empty Un_empty_left)
    then obtain s where s: "s \<in> set ?P"
      and ts: "t \<in> set (input_file_set s) \<union> set (output_file_set s)" by blast
    from k nth_mem have "steps ! k \<in> set steps" by blast
    with d have "distinct (output_file_set (steps ! k))" by blast
    with o have tp: "t \<notin> set pre" by simp
    from s have "s = ?D \<or> s \<in> set (take k steps)" by auto
    then show ?thesis
    proof
      assume "s = ?D"
      with ts tp have "t \<in> set (input_file_set (steps ! k))" by simp
      then show ?thesis by blast
    next
      assume "s \<in> set (take k steps)"
      then obtain j where j: "j < k" and sj: "s = steps ! j"
        using k by (auto simp: in_set_conv_nth)
      from ts sj have "t \<in> set (input_file_set (steps ! j)) \<or> t \<in> set (output_file_set (steps ! j))"
        by simp
      with j show ?thesis by (meson less_imp_le)
    qed
  qed
  from k o e A B C show ?thesis by blast
qed

text \<open>
  C6, as amended. In a list of at least two steps (each output set without repetition, as
  a set is), when a tag that is an output of step \<open>k\<close> is also an input of a step up to
  \<open>k\<close> or an output of a step before \<open>k\<close>, composition fails, before anything is
  run, with an error whose message ends in the first such tag met: the tag \<open>t'\<close> of a step
  \<open>k'\<close> such that no output tag of an earlier step, and no output tag iterated before
  \<open>t'\<close> in step \<open>k'\<close>, was already an input or an output when it was reached. Two steps
  that both declare exactly the output tag \<open>x\<close> raise the error naming \<open>x\<close>, whatever
  their inputs, builds and exposed intermediates.
\<close>

theorem sequence_conflict:
  "(2 \<le> length seq_steps \<and> (\<forall>s \<in> set seq_steps. distinct (output_file_set s)) \<and>
    k < length seq_steps \<and> t \<in> set (output_file_set (seq_steps ! k)) \<and>
    ((\<exists>j \<le> k. t \<in> set (input_file_set (seq_steps ! j))) \<or>
     (\<exists>j < k. t \<in> set (output_file_set (seq_steps ! j)))) \<longrightarrow>
      (\<exists>k' pre t' post. k' < length seq_steps \<and>
         output_file_set (seq_steps ! k') = pre @ t' # post \<and>
         ((\<exists>j \<le> k'. t' \<in> set (input_file_set (seq_steps ! j))) \<or>
          (\<exists>j < k'. t' \<in> set (output_file_set (seq_steps ! j)))) \<and>
         (\<forall>j < k'. \<forall>u \<in> set (output_file_set (seq_steps ! j)).
            (\<forall>j' \<le> j. u \<notin> set (input_file_set (seq_steps ! j'))) \<and>
            (\<forall>j' < j. u \<notin> set (output_file_set (seq_steps ! j')))) \<and>
         (\<forall>u \<in> set pre.
            (\<forall>j' \<le> k'. u \<notin> set (input_file_set (seq_steps ! j'))) \<and>
            (\<forall>j' < k'. u \<notin> set (output_file_set (seq_steps ! j')))) \<and>
         sequence seq_steps exposed =
           Inl (BakerError (''Multiple steps in sequence generate output tag '' @ t')))) \<and>
   sequence [StepDefinition ia [''x''] a, StepDefinition ib [''x''] b] exposed =
     Inl (BakerError ''Multiple steps in sequence generate output tag x'')"
proof (intro conjI impI)
  assume h: "2 \<le> length seq_steps \<and> (\<forall>s \<in> set seq_steps. distinct (output_file_set s)) \<and>
    k < length seq_steps \<and> t \<in> set (output_file_set (seq_steps ! k)) \<and>
    ((\<exists>j \<le> k. t \<in> set (input_file_set (seq_steps ! j))) \<or>
     (\<exists>j < k. t \<in> set (output_file_set (seq_steps ! j))))"
  then obtain e where e: "build_lexical_scope seq_steps = Inl e"
    unfolding build_lexical_scope_def using scope_steps_fails [of k seq_steps t 0 "[]"] by blast
  from h have d: "\<forall>s \<in> set seq_steps. distinct (output_file_set s)" by simp
  from first_conflict [OF e [unfolded build_lexical_scope_def] d] obtain k' pre t' post where
    1: "k' < length seq_steps" "output_file_set (seq_steps ! k') = pre @ t' # post"
    and m: "e = BakerError (''Multiple steps in sequence generate output tag '' @ t')"
    and 2: "(\<exists>j \<le> k'. t' \<in> set (input_file_set (seq_steps ! j))) \<or>
       (\<exists>j < k'. t' \<in> set (output_file_set (seq_steps ! j)))"
    and 3: "\<forall>j < k'. \<forall>u \<in> set (output_file_set (seq_steps ! j)).
         (\<forall>j' \<le> j. u \<notin> set (input_file_set (seq_steps ! j'))) \<and>
         (\<forall>j' < j. u \<notin> set (output_file_set (seq_steps ! j')))"
    and 4: "\<forall>u \<in> set pre.
         (\<forall>j' \<le> k'. u \<notin> set (input_file_set (seq_steps ! j'))) \<and>
         (\<forall>j' < k'. u \<notin> set (output_file_set (seq_steps ! j')))"
    by (elim exE conjE) (rule that, assumption+)
  from sequence_scope_Inl [of seq_steps e exposed] h e m
  have 5: "sequence seq_steps exposed =
           Inl (BakerError (''Multiple steps in sequence generate output tag '' @ t'))" by simp
  from 1 2 3 4 5 show "\<exists>k' pre t' post. k' < length seq_steps \<and>
         output_file_set (seq_steps ! k') = pre @ t' # post \<and>
         ((\<exists>j \<le> k'. t' \<in> set (input_file_set (seq_steps ! j))) \<or>
          (\<exists>j < k'. t' \<in> set (output_file_set (seq_steps ! j)))) \<and>
         (\<forall>j < k'. \<forall>u \<in> set (output_file_set (seq_steps ! j)).
            (\<forall>j' \<le> j. u \<notin> set (input_file_set (seq_steps ! j'))) \<and>
            (\<forall>j' < j. u \<notin> set (output_file_set (seq_steps ! j')))) \<and>
         (\<forall>u \<in> set pre.
            (\<forall>j' \<le> k'. u \<notin> set (input_file_set (seq_steps ! j'))) \<and>
            (\<forall>j' < k'. u \<notin> set (output_file_set (seq_steps ! j')))) \<and>
         sequence seq_steps exposed =
           Inl (BakerError (''Multiple steps in sequence generate output tag '' @ t'))"
    by (intro exI [of _ k'] exI [of _ pre] exI [of _ t'] exI [of _ post] conjI)
next
  have i: "\<And>ts sc t. map_of (scope_inputs ts sc) t = None \<longleftrightarrow> map_of sc t = None \<and> t \<notin> set ts"
    using scope_inputs_dom by (metis Un_iff domIff)
  show "sequence [StepDefinition ia [''x''] a, StepDefinition ib [''x''] b] exposed =
     Inl (BakerError ''Multiple steps in sequence generate output tag x'')"
    by (simp add: sequence_def build_lexical_scope_def i update_conv')
qed

text \<open>
  Two things in the claim as it was written do not hold. A list of one step is returned
  as it is, also when a tag is both an input and an output of the step: no scope is built
  for it. And the error for two producers of one tag is a \<^verbatim>\<open>BakerError\<close>, not the
  specialization \<^verbatim>\<open>TagConflictError\<close>.
\<close>

theorem sequence_conflict_counterexample:
  "''x'' \<in> set (input_file_set (StepDefinition [''x''] [''x''] no_build)) \<and>
   ''x'' \<in> set (output_file_set (StepDefinition [''x''] [''x''] no_build)) \<and>
   sequence [StepDefinition [''x''] [''x''] no_build] [] = Inr (StepDefinition [''x''] [''x''] no_build) \<and>
   sequence [StepDefinition [''a''] [''x''] no_build, StepDefinition [''b''] [''x''] no_build] [] =
     Inl (BakerError ''Multiple steps in sequence generate output tag x'') \<and>
   \<not> (\<exists>msg. sequence [StepDefinition [''a''] [''x''] no_build,
                         StepDefinition [''b''] [''x''] no_build] [] = Inl (TagConflictError msg))"
  by (simp add: sequence_def build_lexical_scope_def)

theorem sequence_conflict_witness:
  "2 \<le> length [StepDefinition [''a''] [''x'', ''y''] no_build,
                StepDefinition [''b''] [''y'', ''x''] no_build] \<and>
   distinct (output_file_set (StepDefinition [''a''] [''x'', ''y''] no_build)) \<and>
   distinct (output_file_set (StepDefinition [''b''] [''y'', ''x''] no_build)) \<and>
   (1::nat) < length [StepDefinition [''a''] [''x'', ''y''] no_build,
                      StepDefinition [''b''] [''y'', ''x''] no_build] \<and>
   ''x'' \<in> set (output_file_set
      ([StepDefinition [''a''] [''x'', ''y''] no_build, StepDefinition [''b''] [''y'', ''x''] no_build] ! 1)) \<and>
   ''x'' \<in> set (output_file_set
      ([StepDefinition [''a''] [''x'', ''y''] no_build, StepDefinition [''b''] [''y'', ''x''] no_build] ! 0)) \<and>
   (\<exists>k' pre t' post.
      k' < length [StepDefinition [''a''] [''x'', ''y''] no_build,
                   StepDefinition [''b''] [''y'', ''x''] no_build] \<and>
      output_file_set ([StepDefinition [''a''] [''x'', ''y''] no_build,
                        StepDefinition [''b''] [''y'', ''x''] no_build] ! k') = pre @ t' # post \<and>
      sequence [StepDefinition [''a''] [''x'', ''y''] no_build,
                StepDefinition [''b''] [''y'', ''x''] no_build] [] =
        Inl (BakerError (''Multiple steps in sequence generate output tag '' @ t'))) \<and>
   sequence [StepDefinition [''a''] [''x'', ''y''] no_build,
             StepDefinition [''b''] [''y'', ''x''] no_build] [] =
     Inl (BakerError ''Multiple steps in sequence generate output tag y'')"
proof -
  let ?steps = "[StepDefinition [''a''] [''x'', ''y''] no_build,
                 StepDefinition [''b''] [''y'', ''x''] no_build]"
  have h: "2 \<le> length ?steps \<and> (\<forall>s \<in> set ?steps. distinct (output_file_set s)) \<and>
    1 < length ?steps \<and> ''x'' \<in> set (output_file_set (?steps ! 1)) \<and>
    ((\<exists>j \<le> 1. ''x'' \<in> set (input_file_set (?steps ! j))) \<or>
     (\<exists>j < 1. ''x'' \<in> set (output_file_set (?steps ! j))))"
    by simp
  from sequence_conflict [where seq_steps = ?steps and k = 1 and t = "''x''" and exposed = "[]",
      THEN conjunct1, rule_format, OF h]
  obtain k' pre t' post where "k' < length ?steps" "output_file_set (?steps ! k') = pre @ t' # post"
    "sequence ?steps [] = Inl (BakerError (''Multiple steps in sequence generate output tag '' @ t'))"
    by (elim exE conjE) (rule that, assumption+)
  then have 1: "\<exists>k' pre t' post. k' < length ?steps \<and>
    output_file_set (?steps ! k') = pre @ t' # post \<and>
    sequence ?steps [] = Inl (BakerError (''Multiple steps in sequence generate output tag '' @ t'))"
    by blast
  have 2: "sequence ?steps [] = Inl (BakerError ''Multiple steps in sequence generate output tag y'')"
    by (simp add: sequence_def build_lexical_scope_def)
  from 1 2 show ?thesis by simp
qed

lemma sublist_prepend:
  "sublist xs ys \<Longrightarrow> sublist xs (ps @ ys)"
  unfolding sublist_def by (metis append.assoc)

lemma sublist_join:
  "t \<in> set xs \<Longrightarrow> sublist t (join sep xs)"
proof (induction sep xs rule: join.induct)
  case (1 sep)
  then show ?case by simp
next
  case (2 sep x)
  then show ?case by simp
next
  case (3 sep x y ys)
  show ?case
  proof (cases "t = x")
    case True
    then show ?thesis by (simp add: sublist_append_rightI)
  next
    case False
    with 3 have "sublist t (join sep (y # ys))" by simp
    then have "sublist t ((x @ sep) @ join sep (y # ys))" by (rule sublist_prepend)
    then show ?thesis by simp
  qed
qed

lemma determine_sequence_interface_cases:
  assumes "build_lexical_scope seq_steps = Inr sc"
  shows "determine_sequence_interface seq_steps exposed =
     (if \<exists>t \<in> set exposed. map_of sc t = None \<or> (\<exists>r. map_of sc t = Some (-1, r))
      then Inl (BakerError (''Attempting to expose non-generated intermediate(s): '' @ join '', '' exposed))
      else Inr (map fst (filter (\<lambda>(tag, ref). fst ref = -1) sc),
                remdups (map fst (filter (\<lambda>(tag, ref). snd ref = 0) sc) @ exposed)))"
proof -
  note d = build_lexical_scope_distinct [OF assms]
  have i: "set (map fst (filter (\<lambda>(tag, ref). fst ref = -1) sc)) = {t. \<exists>r. map_of sc t = Some (-1, r)}"
    unfolding keys_filter_distinct [OF d, of "\<lambda>ref. fst ref = -1"] by auto
  have "(t \<notin> set (filter (\<lambda>tag. tag \<notin> set (map fst (filter (\<lambda>(tag, ref). fst ref = -1) sc)))
            (map fst sc))) = (map_of sc t = None \<or> (\<exists>r. map_of sc t = Some (-1, r)))" for t
  proof -
    have a: "(t \<notin> fst ` set sc) = (map_of sc t = None)"
      by (simp only: map_of_eq_None_iff)
    have b: "(t \<in> set (map fst (filter (\<lambda>(tag, ref). fst ref = -1) sc))) =
        (\<exists>r. map_of sc t = Some (-1, r))"
      by (simp only: i mem_Collect_eq)
    have "(t \<notin> set (filter (\<lambda>tag. tag \<notin> set (map fst (filter (\<lambda>(tag, ref). fst ref = -1) sc)))
            (map fst sc))) =
          (t \<notin> fst ` set sc \<or> t \<in> set (map fst (filter (\<lambda>(tag, ref). fst ref = -1) sc)))"
      by (simp del: set_map add: set_map [symmetric])
    then show ?thesis by (simp only: a b)
  qed
  then have "(\<exists>t \<in> set exposed. t \<notin> set (filter (\<lambda>tag. tag \<notin> set (map fst (filter (\<lambda>(tag, ref). fst ref = -1) sc)))
            (map fst sc))) \<longleftrightarrow>
        (\<exists>t \<in> set exposed. map_of sc t = None \<or> (\<exists>r. map_of sc t = Some (-1, r)))"
    by simp
  then show ?thesis
    unfolding determine_sequence_interface_def using assms
    by (simp add: Let_def filter_empty_conv del: set_filter set_map)
qed

subsection \<open>Exposed intermediates\<close>

text \<open>
  C7, as amended. For a list of at least two steps whose scope resolves without a
  conflict, composition raises an error if and only if some exposed intermediate is
  missing from the scope or has the external origin (it is in the input set of the
  sequence); the message of that error is the fixed prefix followed by all the exposed
  intermediates joined by \<open>, \<close>, so every offending tag occurs in it.
\<close>

theorem exposed_validation:
  "2 \<le> length seq_steps \<and> build_lexical_scope seq_steps = Inr lexical_scope \<longrightarrow>
     ((\<exists>e. sequence seq_steps exposed = Inl e) \<longleftrightarrow>
      (\<exists>t \<in> set exposed. map_of lexical_scope t = None \<or>
                            (\<exists>r. map_of lexical_scope t = Some (-1, r)))) \<and>
     (\<forall>e. sequence seq_steps exposed = Inl e \<longrightarrow>
        e = BakerError (''Attempting to expose non-generated intermediate(s): '' @ join '', '' exposed) \<and>
        (\<forall>t \<in> set exposed. sublist t (message e)))"
proof
  assume h: "2 \<le> length seq_steps \<and> build_lexical_scope seq_steps = Inr lexical_scope"
  then have l: "\<not> length seq_steps < 1" "length seq_steps \<noteq> 1" by auto
  note c = determine_sequence_interface_cases [of seq_steps lexical_scope exposed]
  have m: "\<forall>t \<in> set exposed. sublist t (''Attempting to expose non-generated intermediate(s): ''
      @ join '', '' exposed)"
    using sublist_join [of _ exposed "'', ''"] sublist_prepend by blast
  show "((\<exists>e. sequence seq_steps exposed = Inl e) \<longleftrightarrow>
      (\<exists>t \<in> set exposed. map_of lexical_scope t = None \<or>
                            (\<exists>r. map_of lexical_scope t = Some (-1, r)))) \<and>
     (\<forall>e. sequence seq_steps exposed = Inl e \<longrightarrow>
        e = BakerError (''Attempting to expose non-generated intermediate(s): '' @ join '', '' exposed) \<and>
        (\<forall>t \<in> set exposed. sublist t (message e)))"
  proof (cases "\<exists>t \<in> set exposed. map_of lexical_scope t = None \<or>
                            (\<exists>r. map_of lexical_scope t = Some (-1, r))")
    case True
    with c h have "sequence seq_steps exposed =
      Inl (BakerError (''Attempting to expose non-generated intermediate(s): '' @ join '', '' exposed))"
      unfolding sequence_def using l by simp
    with True m show ?thesis by auto
  next
    case False
    with c h have "\<exists>S. sequence seq_steps exposed = Inr S"
      unfolding sequence_def using l by simp
    with False show ?thesis by auto
  qed
qed

text \<open>
  Without the condition on the scope the equivalence fails: two steps that produce the
  same tag make composition fail with no exposed intermediate at all.
\<close>

theorem exposed_validation_counterexample:
  "2 \<le> length [StepDefinition [] [''x''] no_build, StepDefinition [] [''x''] no_build] \<and>
   sequence [StepDefinition [] [''x''] no_build, StepDefinition [] [''x''] no_build] [] =
     Inl (BakerError ''Multiple steps in sequence generate output tag x'') \<and>
   \<not> (\<exists>t. t \<in> set ([] :: tag list))"
  by (simp add: sequence_def build_lexical_scope_def)

theorem exposed_validation_witness:
  "2 \<le> length [step_A, step_B] \<and>
   build_lexical_scope [step_A, step_B] =
     Inr [(''raw'', (-1, 1)), (''clean'', (0, 1)), (''report'', (1, 0))] \<and>
   sequence [step_A, step_B] [''clean'', ''raw'', ''nowhere''] =
     Inl (BakerError ''Attempting to expose non-generated intermediate(s): clean, raw, nowhere'') \<and>
   sublist ''raw'' ''Attempting to expose non-generated intermediate(s): clean, raw, nowhere'' \<and>
   sublist ''nowhere'' ''Attempting to expose non-generated intermediate(s): clean, raw, nowhere''"
proof -
  have h: "2 \<le> length [step_A, step_B] \<and> build_lexical_scope [step_A, step_B] =
     Inr [(''raw'', (-1, 1)), (''clean'', (0, 1)), (''report'', (1, 0))]"
    by (simp add: build_lexical_scope_def inc_ref_count_def)
  have s: "sequence [step_A, step_B] [''clean'', ''raw'', ''nowhere''] =
     Inl (BakerError ''Attempting to expose non-generated intermediate(s): clean, raw, nowhere'')"
    by (simp add: sequence_def determine_sequence_interface_def build_lexical_scope_def
        inc_ref_count_def Let_def)
  from exposed_validation [where seq_steps = "[step_A, step_B]"
      and exposed = "[''clean'', ''raw'', ''nowhere'']", THEN mp, OF h, THEN conjunct2, rule_format, OF s]
  have "\<forall>t \<in> set [''clean'', ''raw'', ''nowhere''].
    sublist t ''Attempting to expose non-generated intermediate(s): clean, raw, nowhere''"
    by simp
  with h s show ?thesis by simp
qed

subsection \<open>The planner\<close>

lemma generate_temp_filename_eq:
  "generate_temp_filename sid w =
     (temp_folder sid @ ''/'' @ uuid_source w (uuid_count w),
      w\<lparr>existing_paths := insert (temp_folder sid) (existing_paths w),
        uuid_count := Suc (uuid_count w)\<rparr>)"
  by (simp add: generate_temp_filename_def uuid4_def Let_def insert_absorb)

lemma generate_paths_world:
  "uuid_count (snd (generate_paths sid ts acc w)) = uuid_count w + length ts \<and>
   uuid_source (snd (generate_paths sid ts acc w)) = uuid_source w"
  by (induction ts arbitrary: acc w) (simp_all add: generate_temp_filename_eq)

lemma generate_paths_other:
  "t \<notin> set ts \<Longrightarrow> fst (generate_paths sid ts acc w) t = acc t"
  by (induction ts arbitrary: acc w) (auto simp: generate_temp_filename_eq)

lemma generate_paths_dom:
  "dom (fst (generate_paths sid ts acc w)) = dom acc \<union> set ts"
  by (induction ts arbitrary: acc w) (auto simp: generate_temp_filename_eq)

lemma generate_paths_nth:
  "distinct ts \<Longrightarrow> j < length ts \<Longrightarrow>
     fst (generate_paths sid ts acc w) (ts ! j) =
       Some (temp_folder sid @ ''/'' @ uuid_source w (uuid_count w + j))"
proof (induction ts arbitrary: acc w j)
  case Nil
  then show ?case by simp
next
  case (Cons t ts)
  show ?case
  proof (cases j)
    case 0
    with Cons.prems show ?thesis
      by (simp add: generate_temp_filename_eq generate_paths_other)
  next
    case (Suc j')
    with Cons.prems Cons.IH [of j'] show ?thesis
      by (simp add: generate_temp_filename_eq)
  qed
qed

text \<open>One round of the planning loop.\<close>

lemma plan_steps_Cons:
  "plan_steps (step # steps) seq_outs sid si sop prev w =
     (let g = generate_paths sid (filter (\<lambda>tag. tag \<notin> set seq_outs) (output_file_set step)) Map.empty w;
          inst = \<lparr>definition_of = step,
                  input_paths = (si |` set (input_file_set step)) ++ (prev |` set (input_file_set step)),
                  output_paths = fst g ++ (sop |` set (output_file_set step))\<rparr>;
          r = plan_steps steps seq_outs sid si sop (output_paths inst) (snd g)
      in (inst # fst r, snd r))"
  by (simp add: Let_def split: prod.splits)

lemma plan_steps_length:
  "length (fst (plan_steps steps seq_outs sid si sop prev w)) = length steps"
  by (induction steps arbitrary: prev w) (simp_all add: plan_steps_Cons Let_def del: plan_steps.simps(2))

lemma plan_steps_definition_of:
  "i < length steps \<Longrightarrow>
     definition_of (fst (plan_steps steps seq_outs sid si sop prev w) ! i) = steps ! i"
proof (induction steps arbitrary: prev w i)
  case Nil
  then show ?case by simp
next
  case (Cons s steps)
  then show ?case
    by (cases i) (simp_all add: plan_steps_Cons Let_def del: plan_steps.simps(2))
qed

lemma plan_steps_input_paths:
  "i < length steps \<Longrightarrow>
     input_paths (fst (plan_steps steps seq_outs sid si sop prev w) ! i) =
       (si |` set (input_file_set (steps ! i))) ++
       ((if i = 0 then prev
         else output_paths (fst (plan_steps steps seq_outs sid si sop prev w) ! (i - 1)))
          |` set (input_file_set (steps ! i)))"
proof (induction steps arbitrary: prev w i)
  case Nil
  then show ?case by simp
next
  case (Cons s steps)
  show ?case
  proof (cases i)
    case 0
    then show ?thesis by (simp add: plan_steps_Cons Let_def del: plan_steps.simps(2))
  next
    case (Suc i')
    with Cons.prems have "i' < length steps" by simp
    from Cons.IH [OF this] Suc show ?thesis
      by (cases i') (simp_all add: plan_steps_Cons Let_def del: plan_steps.simps(2))
  qed
qed

lemma plan_steps_output_dom:
  "i < length steps \<Longrightarrow>
     dom (output_paths (fst (plan_steps steps seq_outs sid si sop prev w) ! i))
       \<subseteq> set (output_file_set (steps ! i))"
proof (induction steps arbitrary: prev w i)
  case Nil
  then show ?case by simp
next
  case (Cons s steps)
  show ?case
  proof (cases i)
    case 0
    then show ?thesis
      by (auto simp: plan_steps_Cons Let_def generate_paths_dom restrict_map_def
          simp del: plan_steps.simps(2) split: if_splits)
  next
    case (Suc i')
    with Cons.prems have "i' < length steps" by simp
    from Cons.IH [OF this] Suc show ?thesis
      by (simp add: plan_steps_Cons Let_def del: plan_steps.simps(2))
  qed
qed



lemma plan_steps_output_temp:
  "i < length steps \<Longrightarrow> distinct (output_file_set (steps ! i)) \<Longrightarrow>
   j < length (filter (\<lambda>tag. tag \<notin> set seq_outs) (output_file_set (steps ! i))) \<Longrightarrow>
   dom sop \<subseteq> set seq_outs \<Longrightarrow>
     output_paths (fst (plan_steps steps seq_outs sid si sop prev w) ! i)
        (filter (\<lambda>tag. tag \<notin> set seq_outs) (output_file_set (steps ! i)) ! j) =
       Some (temp_folder sid @ ''/'' @
             uuid_source w (uuid_count w +
               (\<Sum>s \<leftarrow> take i steps. length (filter (\<lambda>tag. tag \<notin> set seq_outs) (output_file_set s))) + j))"
proof (induction steps arbitrary: prev w i)
  case Nil
  then show ?case by simp
next
  case (Cons s steps)
  let ?ts = "filter (\<lambda>tag. tag \<notin> set seq_outs) (output_file_set s)"
  show ?case
  proof (cases i)
    case 0
    with Cons.prems have d: "distinct ?ts" and j: "j < length ?ts" by simp_all
    from j have "?ts ! j \<in> set ?ts" by (rule nth_mem)
    then have "?ts ! j \<notin> set seq_outs" by simp
    with Cons.prems(4) have "sop (?ts ! j) = None" by blast
    with generate_paths_nth [OF d j, of sid Map.empty w] 0 show ?thesis
      by (simp add: plan_steps_Cons Let_def map_add_def restrict_map_def del: plan_steps.simps(2))
  next
    case (Suc i')
    with Cons.prems have "i' < length steps" "distinct (output_file_set (steps ! i'))"
      "j < length (filter (\<lambda>tag. tag \<notin> set seq_outs) (output_file_set (steps ! i')))" by simp_all
    from Cons.IH [OF this Cons.prems(4)] Suc show ?thesis
      by (simp add: plan_steps_Cons Let_def generate_paths_world add.assoc del: plan_steps.simps(2))
  qed
qed

subsection \<open>Composed sequences\<close>

lemma scope_steps_outputs_distinct:
  "scope_steps i steps sc = Inr sc' \<Longrightarrow> s \<in> set steps \<Longrightarrow> distinct (output_file_set s)"
proof (induction steps arbitrary: i sc)
  case Nil
  then show ?case by simp
next
  case (Cons a steps)
  from Cons.prems(1) obtain sc1 where
    1: "scope_outputs (int i) (output_file_set a) (scope_inputs (input_file_set a) sc) = Inr sc1"
    and 2: "scope_steps (Suc i) steps sc1 = Inr sc'"
    by (rule scope_steps_Cons_Inr)
  from scope_outputs_Inr [OF 1] have "distinct (output_file_set a)" by simp
  with Cons.IH [OF 2] Cons.prems(2) show ?case by auto
qed

text \<open>What a successful composition of two or more steps gives.\<close>

lemma composed:
  assumes "2 \<le> length seq_steps" "sequence seq_steps exposed = Inr S"
  obtains sc where "build_lexical_scope seq_steps = Inr sc"
    "set (input_file_set S) = {tag. \<exists>r. map_of sc tag = Some (-1, r)}"
    "set (output_file_set S) = {tag. \<exists>i. map_of sc tag = Some (i, 0)} \<union> set exposed"
proof -
  from assms have
    "determine_sequence_interface seq_steps exposed = Inr (input_file_set S, output_file_set S)"
    by (rule sequence_Inr(1))
  then obtain sc where sc: "build_lexical_scope seq_steps = Inr sc"
    and i: "input_file_set S = map fst (filter (\<lambda>(tag, ref). fst ref = -1) sc)"
    and out: "output_file_set S = remdups (map fst (filter (\<lambda>(tag, ref). snd ref = 0) sc) @ exposed)"
    by (rule determine_sequence_interface_Inr)
  note d = build_lexical_scope_distinct [OF sc]
  have "set (input_file_set S) = {tag. \<exists>r. map_of sc tag = Some (-1, r)}"
    unfolding i keys_filter_distinct [OF d, of "\<lambda>ref. fst ref = -1"] by auto
  moreover have "set (output_file_set S) = {tag. \<exists>i. map_of sc tag = Some (i, 0)} \<union> set exposed"
    unfolding out set_remdups set_append keys_filter_distinct [OF d, of "\<lambda>ref. snd ref = 0"] by auto
  ultimately show thesis using sc that by blast
qed

lemma composed_outputs_distinct:
  assumes "2 \<le> length seq_steps" "sequence seq_steps exposed = Inr S" "i < length seq_steps"
  shows "distinct (output_file_set (seq_steps ! i))"
proof -
  from assms(1,2) obtain sc where "build_lexical_scope seq_steps = Inr sc" by (rule composed)
  then show ?thesis
    unfolding build_lexical_scope_def using scope_steps_outputs_distinct assms(3) nth_mem by blast
qed

lemma composed_output_not_input:
  assumes "2 \<le> length seq_steps" "sequence seq_steps exposed = Inr S" "i < length seq_steps"
    "t \<in> set (output_file_set (seq_steps ! i))"
  shows "t \<notin> set (input_file_set S)"
proof -
  from assms(1,2) obtain sc where sc: "build_lexical_scope seq_steps = Inr sc"
    and i: "set (input_file_set S) = {tag. \<exists>r. map_of sc tag = Some (-1, r)}" by (rule composed)
  from scope_steps_produced [OF sc [unfolded build_lexical_scope_def] assms(3,4)]
  obtain r where "map_of sc t = Some (int i, r)" by auto
  with i show ?thesis by auto
qed

lemma composed_first_inputs:
  assumes "2 \<le> length seq_steps" "sequence seq_steps exposed = Inr S"
    "t \<in> set (input_file_set (seq_steps ! 0))"
  shows "t \<in> set (input_file_set S)"
proof -
  from assms(1,2) obtain sc where sc: "build_lexical_scope seq_steps = Inr sc"
    and i: "set (input_file_set S) = {tag. \<exists>r. map_of sc tag = Some (-1, r)}" by (rule composed)
  note p = scope_steps_produced [OF sc [unfolded build_lexical_scope_def]]
  have "\<forall>s \<in> set seq_steps. t \<notin> set (output_file_set s)"
  proof
    fix s assume "s \<in> set seq_steps"
    then obtain k where k: "k < length seq_steps" "s = seq_steps ! k" by (auto simp: in_set_conv_nth)
    show "t \<notin> set (output_file_set s)"
    proof
      assume "t \<in> set (output_file_set s)"
      with p [of k t] k have "\<forall>j \<le> k. t \<notin> set (input_file_set (seq_steps ! j))" by simp
      with assms(3) show False by blast
    qed
  qed
  moreover from assms(1) have "0 < length seq_steps" by (cases seq_steps) simp_all
  then have "seq_steps ! 0 \<in> set seq_steps" by (rule nth_mem)
  with assms(3) have "\<exists>s \<in> set seq_steps. t \<in> set (input_file_set s)" by blast
  ultimately obtain r where "map_of sc t = Some (-1, r)"
    using scope_steps_external [OF sc [unfolded build_lexical_scope_def], of t] by auto
  with i show ?thesis by auto
qed

lemma build_instances_eq:
  "build_instances steps seq_outs input_files output_files w =
     plan_steps steps seq_outs (uuid_source w (uuid_count w)) input_files output_files Map.empty
       (w\<lparr>uuid_count := Suc (uuid_count w)\<rparr>)"
  by (simp add: build_instances_def uuid4_def)

subsection \<open>The paths of the inputs\<close>

text \<open>
  When the input paths of a run are keyed by exactly the input tags of the sequence, no
  tag has both a path from the caller and a path from the previous step, and the order in
  which \<^verbatim>\<open>script\<close> merges the two does not show.
\<close>

lemma input_paths_keyed:
  "(2 \<le> length seq_steps \<and> sequence seq_steps exposed = Inr S \<and>
    dom input_files = set (input_file_set S) \<and>
    i < length seq_steps \<and> tag \<in> set (input_file_set (seq_steps ! i)) \<longrightarrow>
      (let (instances, w1) = build_instances seq_steps (output_file_set S) input_files output_files w
       in build S input_files output_files overwrite w = run_instances instances w1 \<and>
          length instances = length seq_steps \<and>
          definition_of (instances ! i) = seq_steps ! i \<and>
          input_paths (instances ! i) tag =
            (case input_files tag of
               Some p \<Rightarrow> Some p
             | None \<Rightarrow> if i = 0 then None else output_paths (instances ! (i - 1)) tag))) \<and>
   (let (instances, w1) =
          build_instances [StepDefinition [''raw''] [''clean''] a, StepDefinition [''clean''] [''report''] b]
            [''report''] [''raw'' \<mapsto> ''/d/raw.csv''] [''report'' \<mapsto> ''/d/out.csv''] w
    in sequence [StepDefinition [''raw''] [''clean''] a, StepDefinition [''clean''] [''report''] b] [] =
         Inr (StepDefinition [''raw''] [''report'']
               (\<lambda>input_files output_files overwrite.
                  script [StepDefinition [''raw''] [''clean''] a, StepDefinition [''clean''] [''report''] b]
                    [''report''] input_files output_files)) \<and>
       input_paths (instances ! 0) ''raw'' = Some ''/d/raw.csv'' \<and>
       output_paths (instances ! 0) ''clean'' =
         Some (''/tmp/tinybaker-'' @ uuid_source w (uuid_count w) @ ''/'' @
               uuid_source w (Suc (uuid_count w))) \<and>
       input_paths (instances ! 1) ''clean'' = output_paths (instances ! 0) ''clean'' \<and>
       output_paths (instances ! 1) ''report'' = Some ''/d/out.csv'')"
proof (intro conjI impI)
  assume h: "2 \<le> length seq_steps \<and> sequence seq_steps exposed = Inr S \<and>
    dom input_files = set (input_file_set S) \<and>
    i < length seq_steps \<and> tag \<in> set (input_file_set (seq_steps ! i))"
  let ?sid = "uuid_source w (uuid_count w)"
  let ?w = "w\<lparr>uuid_count := Suc (uuid_count w)\<rparr>"
  let ?plan = "plan_steps seq_steps (output_file_set S) ?sid input_files output_files Map.empty ?w"
  from h have i: "i < length seq_steps" and t: "tag \<in> set (input_file_set (seq_steps ! i))" by simp_all
  from h sequence_Inr(2) [of seq_steps exposed S]
  have b: "build S input_files output_files overwrite w = run_instances (fst ?plan) (snd ?plan)"
    by (simp add: script_def build_instances_eq split: prod.splits)
  have e: "input_paths (fst ?plan ! i) tag =
      (case input_files tag of
         Some p \<Rightarrow> Some p
       | None \<Rightarrow> if i = 0 then None else output_paths (fst ?plan ! (i - 1)) tag)"
  proof (cases "i = 0")
    case True
    with h composed_first_inputs [of seq_steps exposed S tag]
    have "tag \<in> dom input_files" by simp
    with True t plan_steps_input_paths [OF i, of "output_file_set S" ?sid input_files output_files Map.empty ?w]
    show ?thesis by (auto simp: map_add_def restrict_map_def)
  next
    case False
    with i have i1: "i - 1 < length seq_steps" by simp
    show ?thesis
    proof (cases "output_paths (fst ?plan ! (i - 1)) tag")
      case None
      with False t plan_steps_input_paths [OF i, of "output_file_set S" ?sid input_files output_files Map.empty ?w]
      show ?thesis by (auto simp: map_add_def restrict_map_def split: option.splits)
    next
      case (Some p)
      with plan_steps_output_dom [OF i1, of "output_file_set S" ?sid input_files output_files Map.empty ?w]
      have "tag \<in> set (output_file_set (seq_steps ! (i - 1)))" by blast
      with h i1 composed_output_not_input [of seq_steps exposed S "i - 1" tag]
      have "input_files tag = None" by auto
      with False t plan_steps_input_paths [OF i, of "output_file_set S" ?sid input_files output_files Map.empty ?w]
      show ?thesis by (auto simp: map_add_def restrict_map_def split: option.splits)
    qed
  qed
  from b e i show "(let (instances, w1) = build_instances seq_steps (output_file_set S) input_files output_files w
       in build S input_files output_files overwrite w = run_instances instances w1 \<and>
          length instances = length seq_steps \<and>
          definition_of (instances ! i) = seq_steps ! i \<and>
          input_paths (instances ! i) tag =
            (case input_files tag of
               Some p \<Rightarrow> Some p
             | None \<Rightarrow> if i = 0 then None else output_paths (instances ! (i - 1)) tag))"
    by (simp add: build_instances_eq case_prod_beta plan_steps_length plan_steps_definition_of)
next
  show "(let (instances, w1) =
          build_instances [StepDefinition [''raw''] [''clean''] a, StepDefinition [''clean''] [''report''] b]
            [''report''] [''raw'' \<mapsto> ''/d/raw.csv''] [''report'' \<mapsto> ''/d/out.csv''] w
    in sequence [StepDefinition [''raw''] [''clean''] a, StepDefinition [''clean''] [''report''] b] [] =
         Inr (StepDefinition [''raw''] [''report'']
               (\<lambda>input_files output_files overwrite.
                  script [StepDefinition [''raw''] [''clean''] a, StepDefinition [''clean''] [''report''] b]
                    [''report''] input_files output_files)) \<and>
       input_paths (instances ! 0) ''raw'' = Some ''/d/raw.csv'' \<and>
       output_paths (instances ! 0) ''clean'' =
         Some (''/tmp/tinybaker-'' @ uuid_source w (uuid_count w) @ ''/'' @
               uuid_source w (Suc (uuid_count w))) \<and>
       input_paths (instances ! 1) ''clean'' = output_paths (instances ! 0) ''clean'' \<and>
       output_paths (instances ! 1) ''report'' = Some ''/d/out.csv'')"
    by (simp add: build_instances_eq plan_steps_Cons Let_def generate_temp_filename_eq temp_folder_def
        sequence_def determine_sequence_interface_def build_lexical_scope_def inc_ref_count_def
        map_add_def restrict_map_def del: plan_steps.simps(2))
qed



lemma sequence_AB_composed: "sequence [step_A, step_B] [] = Inr sequence_AB"
  by (simp add: sequence_def determine_sequence_interface_def build_lexical_scope_def
      inc_ref_count_def Let_def)



subsection \<open>The paths of the outputs\<close>










subsection \<open>Two runs\<close>

lemma generate_paths_existing:
  "existing_paths (snd (generate_paths sid ts acc w)) \<subseteq> insert (temp_folder sid) (existing_paths w)"
proof (induction ts arbitrary: acc w)
  case Nil
  then show ?case by auto
next
  case (Cons t ts)
  let ?w = "w\<lparr>existing_paths := insert (temp_folder sid) (existing_paths w),
               uuid_count := Suc (uuid_count w)\<rparr>"
  let ?acc = "acc(t \<mapsto> temp_folder sid @ ''/'' @ uuid_source w (uuid_count w))"
  have "existing_paths (snd (generate_paths sid (t # ts) acc w)) =
      existing_paths (snd (generate_paths sid ts ?acc ?w))"
    by (simp add: generate_temp_filename_eq)
  also have "\<dots> \<subseteq> insert (temp_folder sid) (existing_paths ?w)" by (rule Cons.IH)
  also have "\<dots> = insert (temp_folder sid) (existing_paths w)" by simp
  finally show ?case .
qed

lemma plan_steps_existing:
  "existing_paths (snd (plan_steps steps seq_outs sid si sop prev w))
     \<subseteq> insert (temp_folder sid) (existing_paths w)"
proof (induction steps arbitrary: prev w)
  case Nil
  then show ?case by auto
next
  case (Cons s steps)
  let ?g = "generate_paths sid (filter (\<lambda>tag. tag \<notin> set seq_outs) (output_file_set s)) Map.empty w"
  let ?out = "fst ?g ++ (sop |` set (output_file_set s))"
  have "existing_paths (snd (plan_steps (s # steps) seq_outs sid si sop prev w)) =
      existing_paths (snd (plan_steps steps seq_outs sid si sop ?out (snd ?g)))"
    by (simp add: plan_steps_Cons Let_def del: plan_steps.simps(2))
  also have "\<dots> \<subseteq> insert (temp_folder sid) (existing_paths (snd ?g))" by (rule Cons.IH)
  also have "\<dots> \<subseteq> insert (temp_folder sid) (existing_paths w)"
    using generate_paths_existing [of sid "filter (\<lambda>tag. tag \<notin> set seq_outs) (output_file_set s)" Map.empty w]
    by blast
  finally show ?case .
qed

lemma temp_path_of_run:
  assumes "2 \<le> length seq_steps" "sequence seq_steps exposed = Inr S"
    "dom output_files \<subseteq> set (output_file_set S)"
    "i < length seq_steps" "tag \<in> set (output_file_set (seq_steps ! i))"
    "tag \<notin> set (output_file_set S)"
  shows "\<exists>u. output_paths (fst (build_instances seq_steps (output_file_set S) input_files output_files w) ! i)
            tag = Some (temp_folder (uuid_source w (uuid_count w)) @ ''/'' @ u)"
proof -
  let ?temps = "filter (\<lambda>t. t \<notin> set (output_file_set S)) (output_file_set (seq_steps ! i))"
  from assms(5,6) have "tag \<in> set ?temps" by simp
  then obtain j where j: "j < length ?temps" and tj: "tag = ?temps ! j"
    unfolding in_set_conv_nth [of tag ?temps] by blast
  from assms(1,2,4) have di: "distinct (output_file_set (seq_steps ! i))"
    by (rule composed_outputs_distinct)
  from plan_steps_output_temp [where steps = seq_steps and sop = output_files
        and seq_outs = "output_file_set S" and sid = "uuid_source w (uuid_count w)"
        and si = input_files and prev = Map.empty
        and w = "w\<lparr>uuid_count := Suc (uuid_count w)\<rparr>", OF assms(4) di j assms(3)] tj
  show ?thesis unfolding build_instances_eq by blast
qed

lemma temp_paths_differ:
  "length id1 = length id2 \<Longrightarrow> id1 \<noteq> id2 \<Longrightarrow>
     temp_folder id1 @ ''/'' @ u1 \<noteq> temp_folder id2 @ ''/'' @ u2"
  by (simp add: temp_folder_def)

text \<open>
  C9. Take two runs of one composed sequence whose ids (the first uuid each run draws)
  differ. The temporary folders of the two runs differ, the planning of a run creates no
  directory but its own folder, and a temporary output path of the first run is never a
  temporary output path of the second: each lies in the folder of its run.
\<close>

theorem temp_paths_disjoint:
  "2 \<le> length seq_steps \<and> sequence seq_steps exposed = Inr S \<and>
   uuid4 w = (id1, w1) \<and> uuid4 w' = (id2, w2) \<and> uuid_string id1 \<and> uuid_string id2 \<and> id1 \<noteq> id2 \<and>
   dom output_files \<subseteq> set (output_file_set S) \<and> dom output_files' \<subseteq> set (output_file_set S) \<and>
   i < length seq_steps \<and> tag \<in> set (output_file_set (seq_steps ! i)) \<and>
   tag \<notin> set (output_file_set S) \<and>
   i' < length seq_steps \<and> tag' \<in> set (output_file_set (seq_steps ! i')) \<and>
   tag' \<notin> set (output_file_set S) \<longrightarrow>
     (let run = build_instances seq_steps (output_file_set S) input_files output_files w;
          run' = build_instances seq_steps (output_file_set S) input_files' output_files' w'
      in temp_folder id1 \<noteq> temp_folder id2 \<and>
         existing_paths (snd run) \<subseteq> insert (temp_folder id1) (existing_paths w) \<and>
         existing_paths (snd run') \<subseteq> insert (temp_folder id2) (existing_paths w') \<and>
         (\<exists>u. output_paths (fst run ! i) tag = Some (temp_folder id1 @ ''/'' @ u)) \<and>
         (\<exists>u. output_paths (fst run' ! i') tag' = Some (temp_folder id2 @ ''/'' @ u)) \<and>
         output_paths (fst run ! i) tag \<noteq> output_paths (fst run' ! i') tag')"
proof
  assume h: "2 \<le> length seq_steps \<and> sequence seq_steps exposed = Inr S \<and>
   uuid4 w = (id1, w1) \<and> uuid4 w' = (id2, w2) \<and> uuid_string id1 \<and> uuid_string id2 \<and> id1 \<noteq> id2 \<and>
   dom output_files \<subseteq> set (output_file_set S) \<and> dom output_files' \<subseteq> set (output_file_set S) \<and>
   i < length seq_steps \<and> tag \<in> set (output_file_set (seq_steps ! i)) \<and>
   tag \<notin> set (output_file_set S) \<and>
   i' < length seq_steps \<and> tag' \<in> set (output_file_set (seq_steps ! i')) \<and>
   tag' \<notin> set (output_file_set S)"
  let ?run = "build_instances seq_steps (output_file_set S) input_files output_files w"
  let ?run' = "build_instances seq_steps (output_file_set S) input_files' output_files' w'"
  from h have id: "id1 = uuid_source w (uuid_count w)" "id2 = uuid_source w' (uuid_count w')"
    by (auto simp: uuid4_def)
  from h have len: "length id1 = length id2" and ne: "id1 \<noteq> id2" by (simp_all add: uuid_string_def)
  from ne have f: "temp_folder id1 \<noteq> temp_folder id2" by (simp add: temp_folder_def)
  from h temp_path_of_run [of seq_steps exposed S output_files i tag input_files w] id
  obtain u where u: "output_paths (fst ?run ! i) tag = Some (temp_folder id1 @ ''/'' @ u)" by auto
  from h temp_path_of_run [of seq_steps exposed S output_files' i' tag' input_files' w'] id
  obtain u' where u': "output_paths (fst ?run' ! i') tag' = Some (temp_folder id2 @ ''/'' @ u')" by auto
  from u u' temp_paths_differ [OF len ne, of u u']
  have d: "output_paths (fst ?run ! i) tag \<noteq> output_paths (fst ?run' ! i') tag'" by simp
  have e: "existing_paths (snd ?run) \<subseteq> insert (temp_folder id1) (existing_paths w)"
    "existing_paths (snd ?run') \<subseteq> insert (temp_folder id2) (existing_paths w')"
    unfolding build_instances_eq id
    using plan_steps_existing [of seq_steps "output_file_set S" "uuid_source w (uuid_count w)"
        input_files output_files Map.empty "w\<lparr>uuid_count := Suc (uuid_count w)\<rparr>"]
      plan_steps_existing [of seq_steps "output_file_set S" "uuid_source w' (uuid_count w')"
        input_files' output_files' Map.empty "w'\<lparr>uuid_count := Suc (uuid_count w')\<rparr>"]
    by simp_all
  from f e u u' d show "(let run = build_instances seq_steps (output_file_set S) input_files output_files w;
          run' = build_instances seq_steps (output_file_set S) input_files' output_files' w'
      in temp_folder id1 \<noteq> temp_folder id2 \<and>
         existing_paths (snd run) \<subseteq> insert (temp_folder id1) (existing_paths w) \<and>
         existing_paths (snd run') \<subseteq> insert (temp_folder id2) (existing_paths w') \<and>
         (\<exists>u. output_paths (fst run ! i) tag = Some (temp_folder id1 @ ''/'' @ u)) \<and>
         (\<exists>u. output_paths (fst run' ! i') tag' = Some (temp_folder id2 @ ''/'' @ u)) \<and>
         output_paths (fst run ! i) tag \<noteq> output_paths (fst run' ! i') tag')"
    unfolding Let_def by blast
qed

theorem temp_paths_disjoint_witness:
  "2 \<le> length [step_A, step_B] \<and> sequence [step_A, step_B] [] = Inr sequence_AB \<and>
   uuid4 world0 = (''11111111-1111-4111-8111-111111111111'', world0\<lparr>uuid_count := 1\<rparr>) \<and>
   uuid4 world1 = (''33333333-3333-4333-8333-333333333333'', world1\<lparr>uuid_count := 3\<rparr>) \<and>
   uuid_string ''11111111-1111-4111-8111-111111111111'' \<and>
   uuid_string ''33333333-3333-4333-8333-333333333333'' \<and>
   ''11111111-1111-4111-8111-111111111111'' \<noteq> ''33333333-3333-4333-8333-333333333333'' \<and>
   dom [''report'' \<mapsto> ''/d/out.csv''] \<subseteq> set (output_file_set sequence_AB) \<and>
   (0::nat) < length [step_A, step_B] \<and> ''clean'' \<in> set (output_file_set ([step_A, step_B] ! 0)) \<and>
   ''clean'' \<notin> set (output_file_set sequence_AB) \<and>
   temp_folder ''11111111-1111-4111-8111-111111111111'' \<noteq>
     temp_folder ''33333333-3333-4333-8333-333333333333'' \<and>
   output_paths (fst (build_instances [step_A, step_B] (output_file_set sequence_AB)
       [''raw'' \<mapsto> ''/d/raw.csv''] [''report'' \<mapsto> ''/d/out.csv''] world0) ! 0) ''clean'' \<noteq>
   output_paths (fst (build_instances [step_A, step_B] (output_file_set sequence_AB)
       [''raw'' \<mapsto> ''/d/raw.csv''] [''report'' \<mapsto> ''/d/out.csv''] world1) ! 0) ''clean''"
proof -
  have h: "2 \<le> length [step_A, step_B] \<and> sequence [step_A, step_B] [] = Inr sequence_AB \<and>
   uuid4 world0 = (''11111111-1111-4111-8111-111111111111'', world0\<lparr>uuid_count := 1\<rparr>) \<and>
   uuid4 world1 = (''33333333-3333-4333-8333-333333333333'', world1\<lparr>uuid_count := 3\<rparr>) \<and>
   uuid_string ''11111111-1111-4111-8111-111111111111'' \<and>
   uuid_string ''33333333-3333-4333-8333-333333333333'' \<and>
   ''11111111-1111-4111-8111-111111111111'' \<noteq> ''33333333-3333-4333-8333-333333333333'' \<and>
   dom [''report'' \<mapsto> ''/d/out.csv''] \<subseteq> set (output_file_set sequence_AB) \<and>
   dom [''report'' \<mapsto> ''/d/out.csv''] \<subseteq> set (output_file_set sequence_AB) \<and>
   0 < length [step_A, step_B] \<and> ''clean'' \<in> set (output_file_set ([step_A, step_B] ! 0)) \<and>
   ''clean'' \<notin> set (output_file_set sequence_AB) \<and>
   0 < length [step_A, step_B] \<and> ''clean'' \<in> set (output_file_set ([step_A, step_B] ! 0)) \<and>
   ''clean'' \<notin> set (output_file_set sequence_AB)"
    using sequence_AB_composed by (simp add: uuid4_def uuid_string_def)
  from temp_paths_disjoint [where seq_steps = "[step_A, step_B]" and exposed = "[]"
      and S = sequence_AB and w = world0 and w' = world1
      and input_files = "[''raw'' \<mapsto> ''/d/raw.csv'']" and output_files = "[''report'' \<mapsto> ''/d/out.csv'']"
      and input_files' = "[''raw'' \<mapsto> ''/d/raw.csv'']" and output_files' = "[''report'' \<mapsto> ''/d/out.csv'']"
      and i = 0 and i' = 0 and tag = "''clean''" and tag' = "''clean''", THEN mp, OF h]
  have "temp_folder ''11111111-1111-4111-8111-111111111111'' \<noteq>
     temp_folder ''33333333-3333-4333-8333-333333333333'' \<and>
   output_paths (fst (build_instances [step_A, step_B] (output_file_set sequence_AB)
       [''raw'' \<mapsto> ''/d/raw.csv''] [''report'' \<mapsto> ''/d/out.csv''] world0) ! 0) ''clean'' \<noteq>
   output_paths (fst (build_instances [step_A, step_B] (output_file_set sequence_AB)
       [''raw'' \<mapsto> ''/d/raw.csv''] [''report'' \<mapsto> ''/d/out.csv''] world1) ! 0) ''clean''"
    unfolding Let_def by blast
  with h show ?thesis by blast
qed

subsection \<open>An input produced two steps earlier\<close>

text \<open>
  C4 fails on the code. Steps A (\<open>raw\<close> to \<open>clean\<close>), B (\<open>raw\<close> to \<open>stats\<close>) and
  C (\<open>clean\<close> and \<open>stats\<close> to \<open>report\<close>) compose, yet the planner gives the
  instance of C no path for its input \<open>clean\<close>: it looks only among the outputs of B.
\<close>

theorem multi_step_back_unresolved:
  "sequence [StepDefinition [''raw''] [''clean''] no_build, StepDefinition [''raw''] [''stats''] no_build,
             StepDefinition [''clean'', ''stats''] [''report''] no_build] [] =
     Inr (StepDefinition [''raw''] [''report'']
        (\<lambda>input_files output_files overwrite.
           script [StepDefinition [''raw''] [''clean''] no_build,
                   StepDefinition [''raw''] [''stats''] no_build,
                   StepDefinition [''clean'', ''stats''] [''report''] no_build]
             [''report''] input_files output_files)) \<and>
   ''clean'' \<in> set (input_file_set
      ([StepDefinition [''raw''] [''clean''] no_build, StepDefinition [''raw''] [''stats''] no_build,
        StepDefinition [''clean'', ''stats''] [''report''] no_build] ! 2)) \<and>
   input_paths (fst (build_instances
      [StepDefinition [''raw''] [''clean''] no_build, StepDefinition [''raw''] [''stats''] no_build,
       StepDefinition [''clean'', ''stats''] [''report''] no_build]
      [''report''] [''raw'' \<mapsto> ''/d/raw.csv''] [''report'' \<mapsto> ''/d/out.csv''] world0) ! 2)
     ''clean'' = None \<and>
   input_paths (fst (build_instances
      [StepDefinition [''raw''] [''clean''] no_build, StepDefinition [''raw''] [''stats''] no_build,
       StepDefinition [''clean'', ''stats''] [''report''] no_build]
      [''report''] [''raw'' \<mapsto> ''/d/raw.csv''] [''report'' \<mapsto> ''/d/out.csv''] world0) ! 2)
     ''stats'' =
     Some ''/tmp/tinybaker-11111111-1111-4111-8111-111111111111/33333333-3333-4333-8333-333333333333''"
  by (simp add: build_instances_eq plan_steps_Cons Let_def generate_temp_filename_eq temp_folder_def
      sequence_def determine_sequence_interface_def build_lexical_scope_def inc_ref_count_def
      map_add_def restrict_map_def del: plan_steps.simps(2))

subsection \<open>The order of the builds\<close>

lemma run_instances_append:
  "run_instances (xs @ ys) w =
     (case run_instances xs w of
        (Some x, w') \<Rightarrow> (Some x, w')
      | (None, w') \<Rightarrow> run_instances ys w')"
  by (induction xs arbitrary: w) (auto split: prod.splits option.splits)

lemma run_instances_take_Suc:
  "i < length instances \<Longrightarrow>
     run_instances (take (Suc i) instances) w =
       (case run_instances (take i instances) w of
          (Some x, w') \<Rightarrow> (Some x, w')
        | (None, wi) \<Rightarrow>
            build (definition_of (instances ! i)) (input_paths (instances ! i))
              (output_paths (instances ! i)) True wi)"
  by (auto simp: take_Suc_conv_app_nth run_instances_append split: prod.splits option.splits)

lemma run_instances_failed:
  assumes "i < length instances" "run_instances (take i instances) w = (None, wi)"
    "build (definition_of (instances ! i)) (input_paths (instances ! i))
       (output_paths (instances ! i)) True wi = (Some x, w')"
  shows "run_instances (take (Suc i) instances @ rest) w = (Some x, w')"
  using assms by (simp add: run_instances_append run_instances_take_Suc)

lemma plan_steps_map_definition_of:
  "map definition_of (fst (plan_steps steps seq_outs sid si sop prev w)) = steps"
  by (rule nth_equalityI) (simp_all add: plan_steps_length plan_steps_definition_of)

text \<open>
  C5. A run plans one instance for each step, in the declared order, and then builds them
  one after the other: the build of step \<open>i\<close> starts in the world that the builds of
  the steps before it left, all of which returned. When the build of step \<open>i\<close> raises
  \<open>x\<close> and leaves the world \<open>w'\<close>, the run raises that same \<open>x\<close> and leaves that same
  \<open>w'\<close>, whatever instances come after \<open>i\<close>: none of them is built.
\<close>

theorem run_in_order_fail_fast:
  "(let (instances, w1) = build_instances steps seq_outs input_files output_files w
    in script steps seq_outs input_files output_files w = run_instances instances w1 \<and>
       map definition_of instances = steps \<and>
       (i < length steps \<longrightarrow>
          run_instances (take (Suc i) instances) w1 =
            (case run_instances (take i instances) w1 of
               (Some x, w') \<Rightarrow> (Some x, w')
             | (None, wi) \<Rightarrow>
                 build (steps ! i) (input_paths (instances ! i)) (output_paths (instances ! i))
                   True wi)) \<and>
       (i < length steps \<and> run_instances (take i instances) w1 = (None, wi) \<and>
        build (steps ! i) (input_paths (instances ! i)) (output_paths (instances ! i)) True wi
          = (Some x, w') \<longrightarrow>
          script steps seq_outs input_files output_files w = (Some x, w') \<and>
          (\<forall>rest. run_instances (take (Suc i) instances @ rest) w1 = (Some x, w'))))"
proof -
  let ?run = "build_instances steps seq_outs input_files output_files w"
  have m: "map definition_of (fst ?run) = steps"
    by (simp add: build_instances_eq plan_steps_map_definition_of)
  then have l: "length (fst ?run) = length steps" by (metis length_map)
  from m have d: "i < length steps \<Longrightarrow> definition_of (fst ?run ! i) = steps ! i"
    using l by (metis nth_map)
  have s: "script steps seq_outs input_files output_files w = run_instances (fst ?run) (snd ?run)"
    by (simp add: script_def case_prod_beta)
  have o: "i < length steps \<longrightarrow>
          run_instances (take (Suc i) (fst ?run)) (snd ?run) =
            (case run_instances (take i (fst ?run)) (snd ?run) of
               (Some x, w') \<Rightarrow> (Some x, w')
             | (None, wi) \<Rightarrow>
                 build (steps ! i) (input_paths (fst ?run ! i)) (output_paths (fst ?run ! i))
                   True wi)"
  proof
    assume i: "i < length steps"
    with l have "i < length (fst ?run)" by simp
    then show "run_instances (take (Suc i) (fst ?run)) (snd ?run) =
            (case run_instances (take i (fst ?run)) (snd ?run) of
               (Some x, w') \<Rightarrow> (Some x, w')
             | (None, wi) \<Rightarrow>
                 build (steps ! i) (input_paths (fst ?run ! i)) (output_paths (fst ?run ! i))
                   True wi)"
      unfolding d [OF i, symmetric] by (rule run_instances_take_Suc)
  qed
  have f: "i < length steps \<and> run_instances (take i (fst ?run)) (snd ?run) = (None, wi) \<and>
        build (steps ! i) (input_paths (fst ?run ! i)) (output_paths (fst ?run ! i)) True wi
          = (Some x, w') \<longrightarrow>
          script steps seq_outs input_files output_files w = (Some x, w') \<and>
          (\<forall>rest. run_instances (take (Suc i) (fst ?run) @ rest) (snd ?run) = (Some x, w'))"
  proof
    assume a: "i < length steps \<and> run_instances (take i (fst ?run)) (snd ?run) = (None, wi) \<and>
        build (steps ! i) (input_paths (fst ?run ! i)) (output_paths (fst ?run ! i)) True wi
          = (Some x, w')"
    then have "build (definition_of (fst ?run ! i)) (input_paths (fst ?run ! i))
        (output_paths (fst ?run ! i)) True wi = (Some x, w')"
      using d by simp
    with a l have r: "\<And>rest. run_instances (take (Suc i) (fst ?run) @ rest) (snd ?run) = (Some x, w')"
      using run_instances_failed [of i "fst ?run" "snd ?run" wi x w'] by simp
    from r [of "drop (Suc i) (fst ?run)"] s
    have "script steps seq_outs input_files output_files w = (Some x, w')" by simp
    with r show "script steps seq_outs input_files output_files w = (Some x, w') \<and>
          (\<forall>rest. run_instances (take (Suc i) (fst ?run) @ rest) (snd ?run) = (Some x, w'))"
      by blast
  qed
  from s m o f show ?thesis unfolding case_prod_beta Let_def by blast
qed

lemma generate_paths_files:
  "files (snd (generate_paths sid ts acc w)) = files w"
  by (induction ts arbitrary: acc w) (simp_all add: generate_temp_filename_eq)

lemma plan_steps_files:
  "files (snd (plan_steps steps seq_outs sid si sop prev w)) = files w"
  by (induction steps arbitrary: prev w)
    (simp_all add: plan_steps_Cons Let_def generate_paths_files del: plan_steps.simps(2))

theorem run_in_order_fail_fast_witness:
  "(1::nat) < length steps_failing \<and>
   fst (run_instances (take 1 (fst run_failing)) (snd run_failing)) = None \<and>
   files (snd (run_instances (take 1 (fst run_failing)) (snd run_failing))) = 1 \<and>
   fst (build (steps_failing ! 1) (input_paths (fst run_failing ! 1)) (output_paths (fst run_failing ! 1))
          True (snd (run_instances (take 1 (fst run_failing)) (snd run_failing)))) = Some ''boom'' \<and>
   fst (script steps_failing [''report''] [''raw'' \<mapsto> ''/d/raw.csv''] [''report'' \<mapsto> ''/d/out.csv'']
          \<lparr>uuid_source = uuids0, uuid_count = 0, existing_paths = {}, files = 0\<rparr>) = Some ''boom'' \<and>
   files (snd (script steps_failing [''report''] [''raw'' \<mapsto> ''/d/raw.csv''] [''report'' \<mapsto> ''/d/out.csv'']
          \<lparr>uuid_source = uuids0, uuid_count = 0, existing_paths = {}, files = 0\<rparr>)) = 11"
proof -
  let ?wi = "snd (run_instances (take 1 (fst run_failing)) (snd run_failing))"
  let ?w' = "snd (build (steps_failing ! 1) (input_paths (fst run_failing ! 1))
                (output_paths (fst run_failing ! 1)) True ?wi)"
  have p: "length (fst run_failing) = 3"
    by (simp add: build_instances_eq plan_steps_length del: plan_steps.simps)
  have t: "take 1 (fst run_failing) = [fst run_failing ! 0]"
    using p by (simp add: take_Suc_conv_app_nth)
  have d: "definition_of (fst run_failing ! 0) = steps_failing ! 0"
    by (simp add: build_instances_eq plan_steps_definition_of del: plan_steps.simps)
  then have d': "definition_of (fst run_failing ! 0) = StepDefinition [''raw''] [''clean''] count_build"
    by simp
  have fw: "files (snd run_failing) = 0"
    by (simp add: build_instances_eq plan_steps_files del: plan_steps.simps)
  have r: "run_instances (take 1 (fst run_failing)) (snd run_failing) = (None, ?wi)"
    unfolding t by (simp add: d')
  have f: "files ?wi = 1"
    unfolding t by (simp add: d' fw)
  have b: "build (steps_failing ! 1) (input_paths (fst run_failing ! 1)) (output_paths (fst run_failing ! 1))
             True ?wi = (Some ''boom'', ?w')"
    by simp
  have h: "1 < length steps_failing \<and>
     run_instances (take 1 (fst run_failing)) (snd run_failing) = (None, ?wi) \<and>
     build (steps_failing ! 1) (input_paths (fst run_failing ! 1)) (output_paths (fst run_failing ! 1))
       True ?wi = (Some ''boom'', ?w')"
    using r b by simp
  from run_in_order_fail_fast [where steps = steps_failing and seq_outs = "[''report'']"
      and input_files = "[''raw'' \<mapsto> ''/d/raw.csv'']" and output_files = "[''report'' \<mapsto> ''/d/out.csv'']"
      and w = "\<lparr>uuid_source = uuids0, uuid_count = 0, existing_paths = {}, files = 0\<rparr>"
      and i = 1 and wi = ?wi and x = "''boom''" and w' = ?w',
      unfolded case_prod_beta Let_def, THEN conjunct2, THEN conjunct2, THEN conjunct2,
      THEN mp, OF h, THEN conjunct1]
  have s: "script steps_failing [''report''] [''raw'' \<mapsto> ''/d/raw.csv''] [''report'' \<mapsto> ''/d/out.csv'']
          \<lparr>uuid_source = uuids0, uuid_count = 0, existing_paths = {}, files = 0\<rparr> = (Some ''boom'', ?w')" .
  have l1: "(1::nat) < length steps_failing" by simp
  note r1 = r [THEN arg_cong [where f = fst], unfolded fst_conv]
  note b1 = b [THEN arg_cong [where f = fst], unfolded fst_conv]
  note s1 = s [THEN arg_cong [where f = fst], unfolded fst_conv]
  note s' = s [THEN arg_cong [where f = snd], unfolded snd_conv]
  have f': "files ?w' = 11" using f by simp
  have s2: "files (snd (script steps_failing [''report''] [''raw'' \<mapsto> ''/d/raw.csv''] [''report'' \<mapsto> ''/d/out.csv'']
          \<lparr>uuid_source = uuids0, uuid_count = 0, existing_paths = {}, files = 0\<rparr>)) = 11"
    unfolding s' by (rule f')
  show ?thesis by (intro conjI; (rule l1 r1 f b1 s1 s2))
qed

subsection \<open>The arguments of composition\<close>

text \<open>What the scope loops do to the store: they write the dictionary, in place.\<close>

lemma dict_store_simps:
  "lists (dict_store d k v h) = lists h"
  "sets (dict_store d k v h) = sets h"
  "dicts (dict_store d k v h) = (dicts h)[d := AList.update k v (dicts h ! d)]"
  by (simp_all add: dict_store_def)

lemma scope_inputs_st_eq:
  "d < length (dicts h) \<Longrightarrow>
     scope_inputs_st d ts h = h\<lparr>dicts := (dicts h)[d := scope_inputs ts (dicts h ! d)]\<rparr>"
proof (induction ts arbitrary: h)
  case Nil
  then show ?case by simp
next
  case (Cons t ts)
  show ?case
  proof (cases "map_of (dicts h ! d) t")
    case None
    let ?h = "dict_store d t (-1, 1) h"
    from Cons.prems have "d < length (dicts ?h)" by (simp add: dict_store_def)
    from Cons.IH [OF this] None Cons.prems show ?thesis by (simp add: dict_store_def)
  next
    case (Some ref)
    let ?h = "dict_store d t (inc_ref_count ref) h"
    from Cons.prems have "d < length (dicts ?h)" by (simp add: dict_store_def)
    from Cons.IH [OF this] Some Cons.prems show ?thesis by (simp add: dict_store_def)
  qed
qed

lemma scope_outputs_st_eq:
  "d < length (dicts h) \<Longrightarrow>
     \<exists>sc. scope_outputs_st d i ts h =
            (case scope_outputs i ts (dicts h ! d) of Inl e \<Rightarrow> Some e | Inr _ \<Rightarrow> None,
             h\<lparr>dicts := (dicts h)[d := sc]\<rparr>) \<and>
          (\<forall>sc'. scope_outputs i ts (dicts h ! d) = Inr sc' \<longrightarrow> sc = sc')"
proof (induction ts arbitrary: h)
  case Nil
  have "h = h\<lparr>dicts := (dicts h)[d := dicts h ! d]\<rparr>" by simp
  then show ?case by (intro exI [of _ "dicts h ! d"]) simp
next
  case (Cons t ts)
  show ?case
  proof (cases "map_of (dicts h ! d) t = None")
    case False
    have "h = h\<lparr>dicts := (dicts h)[d := dicts h ! d]\<rparr>" by simp
    with False show ?thesis by (intro exI [of _ "dicts h ! d"]) simp
  next
    case True
    let ?h = "dict_store d t (i, 0) h"
    from Cons.prems have d: "d < length (dicts ?h)" by (simp add: dict_store_def)
    from Cons.prems have e: "dicts ?h ! d = AList.update t (i, 0) (dicts h ! d)"
      by (simp add: dict_store_def)
    from Cons.IH [OF d] obtain sc where
      1: "scope_outputs_st d i ts ?h =
            (case scope_outputs i ts (dicts ?h ! d) of Inl e \<Rightarrow> Some e | Inr _ \<Rightarrow> None,
             ?h\<lparr>dicts := (dicts ?h)[d := sc]\<rparr>)"
      and 2: "\<forall>sc'. scope_outputs i ts (dicts ?h ! d) = Inr sc' \<longrightarrow> sc = sc'" by blast
    have 3: "?h\<lparr>dicts := (dicts ?h)[d := sc]\<rparr> = h\<lparr>dicts := (dicts h)[d := sc]\<rparr>"
      by (simp add: dict_store_def)
    from True 1 have "scope_outputs_st d i (t # ts) h =
            (case scope_outputs i (t # ts) (dicts h ! d) of Inl e \<Rightarrow> Some e | Inr _ \<Rightarrow> None,
             h\<lparr>dicts := (dicts h)[d := sc]\<rparr>)"
      unfolding 3 e by simp
    moreover from True 2 have "\<forall>sc'. scope_outputs i (t # ts) (dicts h ! d) = Inr sc' \<longrightarrow> sc = sc'"
      unfolding e by simp
    ultimately show ?thesis by blast
  qed
qed

lemma scope_steps_st_eq:
  "d < length (dicts h) \<Longrightarrow>
     \<exists>sc. scope_steps_st d i steps h =
            (case scope_steps i steps (dicts h ! d) of Inl e \<Rightarrow> Some e | Inr _ \<Rightarrow> None,
             h\<lparr>dicts := (dicts h)[d := sc]\<rparr>) \<and>
          (\<forall>sc'. scope_steps i steps (dicts h ! d) = Inr sc' \<longrightarrow> sc = sc')"
proof (induction steps arbitrary: h i)
  case Nil
  have "h = h\<lparr>dicts := (dicts h)[d := dicts h ! d]\<rparr>" by simp
  then show ?case by (intro exI [of _ "dicts h ! d"]) simp
next
  case (Cons s steps)
  let ?hi = "scope_inputs_st d (input_file_set s) h"
  let ?sci = "scope_inputs (input_file_set s) (dicts h ! d)"
  from Cons.prems have hi: "?hi = h\<lparr>dicts := (dicts h)[d := ?sci]\<rparr>"
    by (rule scope_inputs_st_eq)
  with Cons.prems have di: "d < length (dicts ?hi)" and ei: "dicts ?hi ! d = ?sci" by simp_all
  from scope_outputs_st_eq [OF di, of "int i" "output_file_set s"] obtain sco where
    1: "scope_outputs_st d (int i) (output_file_set s) ?hi =
          (case scope_outputs (int i) (output_file_set s) ?sci of Inl e \<Rightarrow> Some e | Inr _ \<Rightarrow> None,
           ?hi\<lparr>dicts := (dicts ?hi)[d := sco]\<rparr>)"
    and 2: "\<forall>sc'. scope_outputs (int i) (output_file_set s) ?sci = Inr sc' \<longrightarrow> sco = sc'"
    unfolding ei by blast
  let ?ho = "h\<lparr>dicts := (dicts h)[d := sco]\<rparr>"
  have 3: "?hi\<lparr>dicts := (dicts ?hi)[d := sco]\<rparr> = ?ho" unfolding hi by simp
  show ?case
  proof (cases "scope_outputs (int i) (output_file_set s) ?sci")
    case (Inl e)
    with 1 3 have "scope_steps_st d i (s # steps) h =
        (case scope_steps i (s # steps) (dicts h ! d) of Inl e \<Rightarrow> Some e | Inr _ \<Rightarrow> None, ?ho)"
      by simp
    moreover from Inl have "\<forall>sc'. scope_steps i (s # steps) (dicts h ! d) = Inr sc' \<longrightarrow> sco = sc'"
      by simp
    ultimately show ?thesis by blast
  next
    case (Inr sc1)
    with 2 have sco: "sco = sc1" by simp
    from Cons.prems have do: "d < length (dicts ?ho)" and eo: "dicts ?ho ! d = sco" by simp_all
    from Cons.IH [OF do, of "Suc i"] obtain sc where
      4: "scope_steps_st d (Suc i) steps ?ho =
            (case scope_steps (Suc i) steps sco of Inl e \<Rightarrow> Some e | Inr _ \<Rightarrow> None,
             ?ho\<lparr>dicts := (dicts ?ho)[d := sc]\<rparr>)"
      and 5: "\<forall>sc'. scope_steps (Suc i) steps sco = Inr sc' \<longrightarrow> sc = sc'"
      unfolding eo by blast
    have 6: "?ho\<lparr>dicts := (dicts ?ho)[d := sc]\<rparr> = h\<lparr>dicts := (dicts h)[d := sc]\<rparr>" by simp
    from Inr 1 3 4 have "scope_steps_st d i (s # steps) h =
        (case scope_steps i (s # steps) (dicts h ! d) of Inl e \<Rightarrow> Some e | Inr _ \<Rightarrow> None,
         h\<lparr>dicts := (dicts h)[d := sc]\<rparr>)"
      unfolding 6 sco by simp
    moreover from Inr 5 have "\<forall>sc'. scope_steps i (s # steps) (dicts h ! d) = Inr sc' \<longrightarrow> sc = sc'"
      unfolding sco by simp
    ultimately show ?thesis by blast
  qed
qed

lemma build_lexical_scope_st_eq:
  "\<exists>sc. build_lexical_scope_st steps h =
          (case build_lexical_scope (lists h ! steps) of
             Inl e \<Rightarrow> Inl e | Inr _ \<Rightarrow> Inr (length (dicts h)),
           h\<lparr>dicts := dicts h @ [sc]\<rparr>) \<and>
        (\<forall>sc'. build_lexical_scope (lists h ! steps) = Inr sc' \<longrightarrow> sc = sc')"
proof -
  let ?h1 = "h\<lparr>dicts := dicts h @ [[]]\<rparr>"
  let ?d = "length (dicts h)"
  have d: "?d < length (dicts ?h1)" and e: "dicts ?h1 ! ?d = []" by simp_all
  from scope_steps_st_eq [OF d, of 0 "lists h ! steps"] obtain sc where
    1: "scope_steps_st ?d 0 (lists h ! steps) ?h1 =
          (case scope_steps 0 (lists h ! steps) [] of Inl e \<Rightarrow> Some e | Inr _ \<Rightarrow> None,
           ?h1\<lparr>dicts := (dicts ?h1)[?d := sc]\<rparr>)"
    and 2: "\<forall>sc'. scope_steps 0 (lists h ! steps) [] = Inr sc' \<longrightarrow> sc = sc'"
    unfolding e by blast
  have 3: "?h1\<lparr>dicts := (dicts ?h1)[?d := sc]\<rparr> = h\<lparr>dicts := dicts h @ [sc]\<rparr>" by simp
  from 1 have "build_lexical_scope_st steps h =
          (case build_lexical_scope (lists h ! steps) of
             Inl e \<Rightarrow> Inl e | Inr _ \<Rightarrow> Inr (length (dicts h)),
           h\<lparr>dicts := dicts h @ [sc]\<rparr>)"
    unfolding 3 by (simp add: build_lexical_scope_st_def new_dict_def build_lexical_scope_def
        split: sum.splits)
  with 2 show ?thesis unfolding build_lexical_scope_def by blast
qed

lemma determine_sequence_interface_st_eq:
  assumes "exposed < length (sets h)"
  shows "\<exists>r sc new. determine_sequence_interface_st steps exposed h =
            (r, h\<lparr>dicts := dicts h @ [sc], sets := sets h @ new\<rparr>) \<and>
          (\<forall>e. determine_sequence_interface (lists h ! steps) (sets h ! exposed) = Inl e \<longrightarrow>
             r = Inl e) \<and>
          (\<forall>ins outs. determine_sequence_interface (lists h ! steps) (sets h ! exposed) = Inr (ins, outs) \<longrightarrow>
             (\<exists>i out. r = Inr (i, out) \<and> (sets h @ new) ! i = ins \<and> (sets h @ new) ! out = outs))"
proof -
  from build_lexical_scope_st_eq [of steps h] obtain sc where
    1: "build_lexical_scope_st steps h =
          (case build_lexical_scope (lists h ! steps) of
             Inl e \<Rightarrow> Inl e | Inr _ \<Rightarrow> Inr (length (dicts h)),
           h\<lparr>dicts := dicts h @ [sc]\<rparr>)"
    and 2: "\<forall>sc'. build_lexical_scope (lists h ! steps) = Inr sc' \<longrightarrow> sc = sc'" by blast
  show ?thesis
  proof (cases "build_lexical_scope (lists h ! steps)")
    case (Inl e)
    with 1 have "determine_sequence_interface_st steps exposed h =
        (Inl e, h\<lparr>dicts := dicts h @ [sc], sets := sets h @ []\<rparr>)"
      by (simp add: determine_sequence_interface_st_def)
    moreover from Inl have "determine_sequence_interface (lists h ! steps) (sets h ! exposed) = Inl e"
      by (simp add: determine_sequence_interface_def)
    ultimately show ?thesis by (intro exI [of _ "Inl e"] exI [of _ sc] exI [of _ "[]"]) simp
  next
    case (Inr sc')
    with 2 have sc: "sc = sc'" by simp
    let ?ins = "map fst (filter (\<lambda>(tag, ref). fst ref = -1) sc)"
    let ?outs = "map fst (filter (\<lambda>(tag, ref). snd ref = 0) sc)"
    let ?keys = "map fst sc"
    let ?non = "filter (\<lambda>tag. tag \<notin> set ?ins) ?keys"
    let ?off = "filter (\<lambda>tag. tag \<notin> set ?non) (sets h ! exposed)"
    let ?n = "length (sets h)"
    have n: "\<And>ys k. k < length ys \<Longrightarrow> (sets h @ ys) ! (?n + k) = ys ! k"
      by simp
    have x: "\<And>ys. (sets h @ ys) ! exposed = sets h ! exposed"
      using assms by (simp add: nth_append)
    show ?thesis
    proof (cases "length ?off \<noteq> 0")
      case True
      let ?new = "[?ins, ?outs, ?keys, ?non, ?off]"
      from 1 Inr True assms have "determine_sequence_interface_st steps exposed h =
          (Inl (BakerError (''Attempting to expose non-generated intermediate(s): ''
                                     @ join '', '' (sets h ! exposed))),
           h\<lparr>dicts := dicts h @ [sc], sets := sets h @ ?new\<rparr>)"
        by (simp add: determine_sequence_interface_st_def new_set_def Let_def nth_append)
      moreover from Inr True have "determine_sequence_interface (lists h ! steps) (sets h ! exposed) =
          Inl (BakerError (''Attempting to expose non-generated intermediate(s): ''
                                     @ join '', '' (sets h ! exposed)))"
        unfolding sc by (simp add: determine_sequence_interface_def Let_def)
      ultimately show ?thesis by (intro exI [of _ "Inl (BakerError (''Attempting to expose non-generated intermediate(s): ''
                                     @ join '', '' (sets h ! exposed)))"] exI [of _ sc] exI [of _ ?new]) simp
    next
      case False
      let ?u = "remdups (?outs @ sets h ! exposed)"
      let ?new = "[?ins, ?outs, ?keys, ?non, ?off, ?u]"
      from 1 Inr False assms have "determine_sequence_interface_st steps exposed h =
          (Inr (?n, ?n + 5), h\<lparr>dicts := dicts h @ [sc], sets := sets h @ ?new\<rparr>)"
        by (simp add: determine_sequence_interface_st_def new_set_def Let_def nth_append)
      moreover from Inr False have "determine_sequence_interface (lists h ! steps) (sets h ! exposed) =
          Inr (?ins, ?u)"
        unfolding sc by (simp add: determine_sequence_interface_def Let_def)
      moreover have "(sets h @ ?new) ! ?n = ?ins" by simp
      moreover have "(sets h @ ?new) ! (?n + 5) = ?u" using n [of 5 ?new] by simp
      ultimately show ?thesis
        by (intro exI [of _ "Inr (?n, ?n + 5)"] exI [of _ sc] exI [of _ ?new]) simp
    qed
  qed
qed

lemma sequence_st_eq:
  assumes "exposed < length (sets h)"
  shows "\<exists>r ds new. sequence_st steps exposed h =
            (r, h\<lparr>dicts := dicts h @ ds, sets := sets h @ new\<rparr>) \<and>
          (case sequence (lists h ! steps) (sets h ! exposed) of
             Inl e \<Rightarrow> r = Inl e
           | Inr S \<Rightarrow>
               r = Inr (Step_itself S) \<and> length (lists h ! steps) = 1 \<or>
               (\<exists>i out. r = Inr (Sequence_class i out steps) \<and>
                  (sets h @ new) ! i = input_file_set S \<and>
                  (sets h @ new) ! out = output_file_set S))"
proof -
  let ?steps = "lists h ! steps"
  have id: "h = h\<lparr>dicts := dicts h @ [], sets := sets h @ []\<rparr>" by simp
  consider "length ?steps < 1" | "length ?steps = 1" | "2 \<le> length ?steps" by linarith
  then show ?thesis
  proof cases
    case 1
    then have "sequence_st steps exposed h =
        (Inl (BakerError ''Cannot sequence fewer than 1 event''),
         h\<lparr>dicts := dicts h @ [], sets := sets h @ []\<rparr>)"
      by (simp add: sequence_st_def)
    moreover from 1 have "sequence ?steps (sets h ! exposed) =
        Inl (BakerError ''Cannot sequence fewer than 1 event'')"
      by (simp add: sequence_def)
    ultimately show ?thesis
      by (intro exI [of _ "Inl (BakerError ''Cannot sequence fewer than 1 event'')"]
          exI [of _ "[]"]) simp
  next
    case 2
    then have "sequence_st steps exposed h =
        (Inr (Step_itself (?steps ! 0)), h\<lparr>dicts := dicts h @ [], sets := sets h @ []\<rparr>)"
      by (simp add: sequence_st_def)
    moreover from 2 have "sequence ?steps (sets h ! exposed) = Inr (?steps ! 0)"
      by (simp add: sequence_def)
    ultimately show ?thesis using 2
      by (intro exI [of _ "Inr (Step_itself (?steps ! 0))"] exI [of _ "[]"]) simp
  next
    case 3
    then have l: "\<not> length ?steps < 1" "length ?steps \<noteq> 1"
      by linarith+
    from build_lexical_scope_st_eq [of steps h] obtain sc where
      b: "build_lexical_scope_st steps h =
          (case build_lexical_scope ?steps of
             Inl e \<Rightarrow> Inl e | Inr _ \<Rightarrow> Inr (length (dicts h)),
           h\<lparr>dicts := dicts h @ [sc]\<rparr>)" by blast
    let ?h1 = "h\<lparr>dicts := dicts h @ [sc]\<rparr>"
    show ?thesis
    proof (cases "build_lexical_scope ?steps")
      case (Inl e)
      with b l have "sequence_st steps exposed h =
          (Inl e, h\<lparr>dicts := dicts h @ [sc], sets := sets h @ []\<rparr>)"
        by (simp add: sequence_st_def)
      moreover from Inl l have "sequence ?steps (sets h ! exposed) = Inl e"
        by (simp add: sequence_def)
      ultimately show ?thesis by (intro exI [of _ "Inl e"] exI [of _ "[sc]"] exI [of _ "[]"]) simp
    next
      case (Inr sc')
      from assms have "exposed < length (sets ?h1)" by simp
      have e1: "lists ?h1 = lists h" "sets ?h1 = sets h" by simp_all
      have e2: "\<And>sc2 new. ?h1\<lparr>dicts := dicts ?h1 @ [sc2], sets := sets h @ new\<rparr> =
          h\<lparr>dicts := dicts h @ [sc, sc2], sets := sets h @ new\<rparr>" by simp
      from determine_sequence_interface_st_eq [OF \<open>exposed < length (sets ?h1)\<close>, of steps,
          unfolded e1 e2] obtain r sc2 new where
        d: "determine_sequence_interface_st steps exposed ?h1 =
              (r, h\<lparr>dicts := dicts h @ [sc, sc2], sets := sets h @ new\<rparr>)"
        and c1: "\<forall>e. determine_sequence_interface ?steps (sets h ! exposed) = Inl e \<longrightarrow> r = Inl e"
        and c2: "\<forall>ins outs. determine_sequence_interface ?steps (sets h ! exposed) = Inr (ins, outs) \<longrightarrow>
             (\<exists>i out. r = Inr (i, out) \<and> (sets h @ new) ! i = ins \<and> (sets h @ new) ! out = outs)"
        by (elim exE conjE) (rule that, assumption+)
      show ?thesis
      proof (cases "determine_sequence_interface ?steps (sets h ! exposed)")
        case (Inl e)
        with c1 have r: "r = Inl e" by simp
        from b Inr l d have "sequence_st steps exposed h =
            (Inl e, h\<lparr>dicts := dicts h @ [sc, sc2], sets := sets h @ new\<rparr>)"
          unfolding r by (simp add: sequence_st_def)
        moreover from Inr Inl l have "sequence ?steps (sets h ! exposed) = Inl e"
          by (simp add: sequence_def)
        ultimately show ?thesis
          by (intro exI [of _ "Inl e"] exI [of _ "[sc, sc2]"] exI [of _ new]) simp
      next
        case (Inr io)
        obtain ins outs where io: "io = (ins, outs)" by (cases io)
        with c2 Inr obtain i out where r: "r = Inr (i, out)" and i: "(sets h @ new) ! i = ins"
          and out: "(sets h @ new) ! out = outs" by blast
        from b \<open>build_lexical_scope ?steps = Inr sc'\<close> l d have "sequence_st steps exposed h =
            (Inr (Sequence_class i out steps),
             h\<lparr>dicts := dicts h @ [sc, sc2], sets := sets h @ new\<rparr>)"
          unfolding r by (simp add: sequence_st_def)
        moreover from \<open>build_lexical_scope ?steps = Inr sc'\<close> Inr io l
        have "sequence ?steps (sets h ! exposed) =
            Inr (StepDefinition ins outs
                   (\<lambda>input_files output_files overwrite.
                      script ?steps outs input_files output_files))"
          by (simp add: sequence_def)
        ultimately show ?thesis using i out
          by (intro exI [of _ "Inr (Sequence_class i out steps)"] exI [of _ "[sc, sc2]"]
              exI [of _ new]) simp
      qed
    qed
  qed
qed

lemma sequence_st_frame:
  assumes "exposed < length (sets h)"
  shows "lists (snd (sequence_st steps exposed h)) = lists h"
    and "take (length (sets h)) (sets (snd (sequence_st steps exposed h))) = sets h"
    and "take (length (dicts h)) (dicts (snd (sequence_st steps exposed h))) = dicts h"
    and "length (sets h) \<le> length (sets (snd (sequence_st steps exposed h)))"
    and "a < length (sets h) \<Longrightarrow> sets (snd (sequence_st steps exposed h)) ! a = sets h ! a"
proof -
  from sequence_st_eq [OF assms, of steps] obtain r ds new where
    e: "sequence_st steps exposed h = (r, h\<lparr>dicts := dicts h @ ds, sets := sets h @ new\<rparr>)"
    by (elim exE conjE)
  show "lists (snd (sequence_st steps exposed h)) = lists h"
    and "take (length (sets h)) (sets (snd (sequence_st steps exposed h))) = sets h"
    and "take (length (dicts h)) (dicts (snd (sequence_st steps exposed h))) = dicts h"
    and "length (sets h) \<le> length (sets (snd (sequence_st steps exposed h)))"
    and "a < length (sets h) \<Longrightarrow> sets (snd (sequence_st steps exposed h)) ! a = sets h ! a"
    unfolding e by (simp_all add: nth_append)
qed

text \<open>
  C10. A call of \<open>sequence\<close> leaves every list, every set and every dictionary that was
  in the store as it was, so the list of steps and the set of exposed intermediates it was
  given are unchanged; all it does to the store is to add new objects. What it returns is
  what the function on values returns for the contents of the two arguments. In
  particular the default set, once empty, is still empty after a call that omits the
  argument, and after a second one.
\<close>

theorem sequence_arguments_unchanged:
  "(seq_steps < length (lists h) \<and> exposed_intermediates < length (sets h) \<longrightarrow>
      (let (r, h') = sequence_st seq_steps exposed_intermediates h
       in lists h' = lists h \<and>
          take (length (sets h)) (sets h') = sets h \<and>
          take (length (dicts h)) (dicts h') = dicts h \<and>
          lists h' ! seq_steps = lists h ! seq_steps \<and>
          sets h' ! exposed_intermediates = sets h ! exposed_intermediates \<and>
          (case sequence (lists h ! seq_steps) (sets h ! exposed_intermediates) of
             Inl e \<Rightarrow> r = Inl e
           | Inr S \<Rightarrow>
               r = Inr (Step_itself S) \<and> length (lists h ! seq_steps) = 1 \<or>
               (\<exists>i out. r = Inr (Sequence_class i out seq_steps) \<and>
                  sets h' ! i = input_file_set S \<and> sets h' ! out = output_file_set S)))) \<and>
   (default_set < length (sets h) \<and> sets h ! default_set = [] \<longrightarrow>
      (let (r1, h1) = sequence_st steps1 default_set h;
           (r2, h2) = sequence_st steps2 default_set h1
       in sets h1 ! default_set = [] \<and> sets h2 ! default_set = []))"
proof (intro conjI impI)
  assume a: "seq_steps < length (lists h) \<and> exposed_intermediates < length (sets h)"
  then have x: "exposed_intermediates < length (sets h)" by simp
  from sequence_st_eq [OF x, of seq_steps] obtain r ds new where
    e: "sequence_st seq_steps exposed_intermediates h =
          (r, h\<lparr>dicts := dicts h @ ds, sets := sets h @ new\<rparr>)"
    and c: "case sequence (lists h ! seq_steps) (sets h ! exposed_intermediates) of
             Inl e \<Rightarrow> r = Inl e
           | Inr S \<Rightarrow>
               r = Inr (Step_itself S) \<and> length (lists h ! seq_steps) = 1 \<or>
               (\<exists>i out. r = Inr (Sequence_class i out seq_steps) \<and>
                  (sets h @ new) ! i = input_file_set S \<and>
                  (sets h @ new) ! out = output_file_set S)"
    by (elim exE conjE)
  from x have n: "(sets h @ new) ! exposed_intermediates = sets h ! exposed_intermediates"
    by (simp add: nth_append)
  from c n show "(let (r, h') = sequence_st seq_steps exposed_intermediates h
       in lists h' = lists h \<and>
          take (length (sets h)) (sets h') = sets h \<and>
          take (length (dicts h)) (dicts h') = dicts h \<and>
          lists h' ! seq_steps = lists h ! seq_steps \<and>
          sets h' ! exposed_intermediates = sets h ! exposed_intermediates \<and>
          (case sequence (lists h ! seq_steps) (sets h ! exposed_intermediates) of
             Inl e \<Rightarrow> r = Inl e
           | Inr S \<Rightarrow>
               r = Inr (Step_itself S) \<and> length (lists h ! seq_steps) = 1 \<or>
               (\<exists>i out. r = Inr (Sequence_class i out seq_steps) \<and>
                  sets h' ! i = input_file_set S \<and> sets h' ! out = output_file_set S)))"
    unfolding e by (simp split: sum.splits)
next
  assume a: "default_set < length (sets h) \<and> sets h ! default_set = []"
  let ?h1 = "snd (sequence_st steps1 default_set h)"
  let ?h2 = "snd (sequence_st steps2 default_set ?h1)"
  from a have d: "default_set < length (sets h)" and e: "sets h ! default_set = []" by simp_all
  from sequence_st_frame(5) [OF d d, of steps1] e have 1: "sets ?h1 ! default_set = []" by simp
  from sequence_st_frame(4) [OF d, of steps1] d have d1: "default_set < length (sets ?h1)" by simp
  from sequence_st_frame(5) [OF d1 d1, of steps2] 1 have 2: "sets ?h2 ! default_set = []" by simp
  from 1 2 show "(let (r1, h1) = sequence_st steps1 default_set h;
           (r2, h2) = sequence_st steps2 default_set h1
       in sets h1 ! default_set = [] \<and> sets h2 ! default_set = [])"
    by (simp add: case_prod_beta)
qed

theorem sequence_arguments_unchanged_witness:
  "(0::nat) < length (lists store0) \<and> (1::nat) < length (sets store0) \<and>
   lists (snd (sequence_st 0 1 store0)) ! 0 = [step_A, step_B] \<and>
   sets (snd (sequence_st 0 1 store0)) ! 1 = [''clean''] \<and>
   (0::nat) < length (sets store0) \<and> sets store0 ! 0 = [] \<and>
   sets (snd (sequence_st 0 0 store0)) ! 0 = [] \<and>
   sets (snd (sequence_st 0 0 (snd (sequence_st 0 0 store0)))) ! 0 = []"
proof -
  have h1: "0 < length (lists store0) \<and> 1 < length (sets store0)" by simp
  have h2: "0 < length (sets store0) \<and> sets store0 ! 0 = []" by simp
  note t = sequence_arguments_unchanged [where h = store0 and seq_steps = 0
      and exposed_intermediates = 1 and default_set = 0 and ?steps1.0 = 0 and ?steps2.0 = 0,
      unfolded Let_def case_prod_beta]
  from t [THEN conjunct1, rule_format, OF h1]
  have a: "lists (snd (sequence_st 0 1 store0)) ! 0 = [step_A, step_B]"
    and b: "sets (snd (sequence_st 0 1 store0)) ! 1 = [''clean'']" by simp_all
  from t [THEN conjunct2, rule_format, OF h2]
  have c: "sets (snd (sequence_st 0 0 store0)) ! 0 = []"
    and d: "sets (snd (sequence_st 0 0 (snd (sequence_st 0 0 store0)))) ! 0 = []" by simp_all
  from h1 h2 a b c d show ?thesis by simp
qed

end
